theory Spec2Isabelle
  imports Main
begin

section \<open>JavaScript strings\<close>

text \<open>
  A JavaScript string is a sequence of UTF-16 code units. A code unit is modelled by its
  number, so that lengths, offsets and slices count what the program counts.
  \<open>js\<close> turns an ASCII literal of the source into its code units.
\<close>

type_synonym jsstring = "int list"

definition js :: "string \<Rightarrow> jsstring" where
  "js = map of_char"

text \<open>
  The class \<open>\s\<close> of a regular expression and the characters removed by
  \<open>String.prototype.trim\<close> are the same set: WhiteSpace and LineTerminator of ECMA-262.
\<close>

definition isWhiteSpace :: "int \<Rightarrow> bool" where
  "isWhiteSpace c =
     (c \<in> set [9, 10, 11, 12, 13, 32, 160, 5760, 8232, 8233, 8239, 8287, 12288, 65279]
      \<or> (8192 \<le> c \<and> c \<le> 8202))"

text \<open>The class \<open>\d\<close> (without the unicode flag): the ten ASCII digits.\<close>

definition isDigit :: "int \<Rightarrow> bool" where
  "isDigit c = (48 \<le> c \<and> c \<le> 57)"

definition trim :: "jsstring \<Rightarrow> jsstring" where
  "trim s = rev (dropWhile isWhiteSpace (rev (dropWhile isWhiteSpace s)))"

text \<open>\<open>startsWith p s\<close>: the string \<open>s\<close> starts with \<open>p\<close>.\<close>

fun startsWith :: "jsstring \<Rightarrow> jsstring \<Rightarrow> bool" where
  "startsWith [] s = True"
| "startsWith (p # ps) [] = False"
| "startsWith (p # ps) (c # cs) = (p = c \<and> startsWith ps cs)"

text \<open>\<open>s.includes(p)\<close>: \<open>p\<close> occurs in \<open>s\<close> at some offset.\<close>

fun includes_js :: "jsstring \<Rightarrow> jsstring \<Rightarrow> bool" where
  "includes_js [] p = startsWith p []"
| "includes_js (c # cs) p = (startsWith p (c # cs) \<or> includes_js cs p)"

text \<open>\<open>s.indexOf(p)\<close>: the offset of the first occurrence of \<open>p\<close> in \<open>s\<close>, or -1.\<close>

fun indexOfFrom :: "nat \<Rightarrow> jsstring \<Rightarrow> jsstring \<Rightarrow> int" where
  "indexOfFrom i [] p = (if startsWith p [] then int i else - 1)"
| "indexOfFrom i (c # cs) p =
     (if startsWith p (c # cs) then int i else indexOfFrom (Suc i) cs p)"

definition indexOf :: "jsstring \<Rightarrow> jsstring \<Rightarrow> int" where
  "indexOf s p = indexOfFrom 0 s p"

text \<open>\<open>s.split(sep)\<close> for a separator of one code unit; the result is never empty.\<close>

fun split_js :: "int \<Rightarrow> jsstring \<Rightarrow> jsstring list" where
  "split_js sep [] = [[]]"
| "split_js sep (c # cs) =
     (if c = sep then [] # split_js sep cs
      else (c # hd (split_js sep cs)) # tl (split_js sep cs))"

section \<open>Messages and the note formatter\<close>

datatype direction = Sent | Received

record message =
  id_m :: jsstring
  text_m :: jsstring
  time_m :: jsstring
  date_m :: jsstring
  direction_m :: direction

text \<open>
  \<open>formatNoteHtml\<close> (lines 161-176): a template literal, trimmed. The two emoji
  literals are the code units the source file holds.
\<close>

definition formatNoteHtml :: "message \<Rightarrow> jsstring" where
  "formatNoteHtml message =
     (let isSent = (direction_m message = Sent);
          borderColor = (if isSent then js ''#2196F3'' else js ''#4CAF50'');
          emoji = (if isSent then [287, 376, 8221, 181] else [287, 376, 376, 162]);
          label = (if isSent then js ''Sent'' else js ''Received'')
      in trim (concat
        [js ''\<newline><div style=\"border-left: 4px solid '', borderColor,
         js ''; padding: 6px 12px; margin: 2px 0; font-family: Arial, sans-serif;\">\<newline>'',
         js ''  <div style=\"font-size: 11px; color: #555; margin-bottom: 4px;\">\<newline>'',
         js ''    '', emoji, js '' <b>'', label, js ''</b> &nbsp;|&nbsp; <b>['',
         time_m message, js '' &nbsp; '', date_m message, js '']</b>\<newline>'',
         js ''  </div>\<newline>'',
         js ''  <div style=\"font-size: 13px; color: #222;\">\<newline>'',
         js ''    '', text_m message, js ''\<newline>'',
         js ''  </div>\<newline>'',
         js ''</div>'']))"

section \<open>The record store behind the gateway\<close>

text \<open>
  The gateway is a remote service, outside the repository; the program only sends it
  requests through \<open>pdFetch\<close>. It is modelled as an in-memory store that answers the
  seven requests the program makes. A created record gets the next free id and is
  appended; a listing is in store order. Which persons a text search returns is the
  service's business: the store carries the predicate \<open>hit_s\<close>. Whether a request
  fails (a transport error, a non-success status, \<open>success: false\<close>) is the service's
  business too: \<open>rejects_s n r\<close> says that request \<open>r\<close>, when it is the \<open>n\<close>-th one
  the store receives, fails. The store logs every request it receives.
\<close>

record person =
  id_p :: nat
  name_p :: "jsstring option"

text \<open>
  The body of the request that creates a deal is a JSON object: a map from the names
  of its properties to their values, a string or a number. The service reads it by
  name, so the order of the properties in the text of the body is not modelled.
\<close>

datatype jsvalue = Str jsstring | Num nat

type_synonym jsobject = "jsstring \<rightharpoonup> jsvalue"

text \<open>
  A deal keeps the properties it was created with; the person of a deal is its
  property \<open>person_id\<close>.
\<close>

record deal =
  id_d :: nat
  fields_d :: jsobject
  deleted_d :: bool

definition personOf :: "deal \<Rightarrow> jsvalue option" where
  "personOf d = fields_d d (js ''person_id'')"

record dealnote =
  id_n :: nat
  deal_id_n :: nat
  content_n :: "jsstring option"

datatype request =
    GetDealFields
  | GetPersonsSearch jsstring
  | GetPersonDeals nat
  | GetNotes nat
  | PostPersons jsstring nat
  | PostDeals jsobject
  | PostNotes nat jsstring

datatype response =
    DealFieldsData "(nat \<times> jsstring) list"
  | ItemsData "person list"
  | DealsData "deal list"
  | NotesData "dealnote list"
  | IdData nat

datatype error =
    NoCookies
  | SessionExpired
  | ChatDivNotFound
  | ChatDivEmpty
  | NoMessagesFound
  | FieldKeysUnresolved
  | GatewayError request
  | URIError
  | TypeError

record store =
  persons_s :: "person list"
  deals_s :: "deal list"
  notes_s :: "dealnote list"
  dealFields_s :: "(nat \<times> jsstring) list"
  nextId_s :: nat
  hit_s :: "jsstring \<Rightarrow> person \<Rightarrow> bool"
  rejects_s :: "nat \<Rightarrow> request \<Rightarrow> bool"
  requests_s :: "request list"

fun serve :: "request \<Rightarrow> store \<Rightarrow> response \<times> store" where
  "serve GetDealFields s = (DealFieldsData (dealFields_s s), s)"
| "serve (GetPersonsSearch q) s = (ItemsData (filter (hit_s s q) (persons_s s)), s)"
| "serve (GetPersonDeals pid) s =
     (DealsData (filter (\<lambda>d. personOf d = Some (Num pid) \<and> \<not> deleted_d d) (deals_s s)), s)"
| "serve (GetNotes did) s = (NotesData (filter (\<lambda>n. deal_id_n n = did) (notes_s s)), s)"
| "serve (PostPersons name owner) s =
     (IdData (nextId_s s),
      s\<lparr>persons_s := persons_s s @ [\<lparr>id_p = nextId_s s, name_p = Some name\<rparr>],
        nextId_s := Suc (nextId_s s)\<rparr>)"
| "serve (PostDeals body) s =
     (IdData (nextId_s s),
      s\<lparr>deals_s := deals_s s @ [\<lparr>id_d = nextId_s s, fields_d = body, deleted_d = False\<rparr>],
        nextId_s := Suc (nextId_s s)\<rparr>)"
| "serve (PostNotes did content) s =
     (IdData (nextId_s s),
      s\<lparr>notes_s := notes_s s @ [\<lparr>id_n = nextId_s s, deal_id_n = did, content_n = Some content\<rparr>],
        nextId_s := Suc (nextId_s s)\<rparr>)"

section \<open>The gateway helpers\<close>

text \<open>
  \<open>pdFetch\<close> (lines 179-193) throws when the response is not a success; otherwise it
  returns the parsed body. Every function below takes the store and returns it with
  its result, an error on the left.
\<close>

definition pdFetch :: "request \<Rightarrow> store \<Rightarrow> (error + response) \<times> store" where
  "pdFetch req s =
     (let s' = s\<lparr>requests_s := requests_s s @ [req]\<rparr>
      in if rejects_s s (length (requests_s s)) req then (Inl (GatewayError req), s')
         else (case serve req s' of (resp, s'') \<Rightarrow> (Inr resp, s'')))"

definition DEAL_OWNER_USER_ID :: nat where
  "DEAL_OWNER_USER_ID = 24734804"

definition SOURCE_CHANNEL_FIELD_ID :: nat where
  "SOURCE_CHANNEL_FIELD_ID = 36"

definition SOURCE_COMPANY_FIELD_ID :: nat where
  "SOURCE_COMPANY_FIELD_ID = 49"

text \<open>
  \<open>getDealFieldKeys\<close> (lines 195-202). \<open>new Map\<close> of the pairs keeps, for an id that
  occurs twice, the later key.
\<close>

definition getDealFieldKeys ::
  "store \<Rightarrow> (error + jsstring option \<times> jsstring option) \<times> store" where
  "getDealFieldKeys s =
     (case pdFetch GetDealFields s of
        (Inl e, s') \<Rightarrow> (Inl e, s')
      | (Inr resp, s') \<Rightarrow>
          (let byId = map_of (rev (case resp of DealFieldsData fs \<Rightarrow> fs | _ \<Rightarrow> []))
           in (Inr (byId SOURCE_CHANNEL_FIELD_ID, byId SOURCE_COMPANY_FIELD_ID), s')))"

text \<open>
  \<open>encodeURIComponent\<close> throws a URIError on a string with a lone surrogate.
\<close>

fun isWellFormed :: "jsstring \<Rightarrow> bool" where
  "isWellFormed [] = True"
| "isWellFormed [c] = (\<not> (55296 \<le> c \<and> c \<le> 57343))"
| "isWellFormed (c # d # cs) =
     (if 55296 \<le> c \<and> c \<le> 56319 then 56320 \<le> d \<and> d \<le> 57343 \<and> isWellFormed cs
      else \<not> (56320 \<le> c \<and> c \<le> 57343) \<and> isWellFormed (d # cs))"

text \<open>
  \<open>findPersonByFirstName\<close> (lines 204-215). \<open>String.prototype.toLowerCase\<close> follows
  the Unicode case tables of the runtime; the function takes it as the parameter
  \<open>toLowerCase\<close>.
\<close>

definition findPersonByFirstName ::
  "(jsstring \<Rightarrow> jsstring) \<Rightarrow> jsstring \<Rightarrow> store \<Rightarrow> (error + person option) \<times> store" where
  "findPersonByFirstName toLowerCase firstName s =
     (if \<not> isWellFormed firstName then (Inl URIError, s)
      else case pdFetch (GetPersonsSearch firstName) s of
        (Inl e, s') \<Rightarrow> (Inl e, s')
      | (Inr resp, s') \<Rightarrow>
          (let items = (case resp of ItemsData is \<Rightarrow> is | _ \<Rightarrow> [])
           in (Inr (List.find
                 (\<lambda>i. let personFirstName =
                            toLowerCase (hd (split_js 32 (case name_p i of None \<Rightarrow> [] | Some n \<Rightarrow> n)))
                      in personFirstName = toLowerCase firstName)
                 items), s')))"

definition getDealsForPerson :: "nat \<Rightarrow> store \<Rightarrow> (error + deal list) \<times> store" where
  "getDealsForPerson personId s =
     (case pdFetch (GetPersonDeals personId) s of
        (Inl e, s') \<Rightarrow> (Inl e, s')
      | (Inr resp, s') \<Rightarrow> (Inr (case resp of DealsData ds \<Rightarrow> ds | _ \<Rightarrow> []), s'))"

definition getNotesForDeal :: "nat \<Rightarrow> store \<Rightarrow> (error + dealnote list) \<times> store" where
  "getNotesForDeal dealId s =
     (case pdFetch (GetNotes dealId) s of
        (Inl e, s') \<Rightarrow> (Inl e, s')
      | (Inr resp, s') \<Rightarrow> (Inr (case resp of NotesData ns \<Rightarrow> ns | _ \<Rightarrow> []), s'))"

text \<open>\<open>addNote\<close> (lines 229-235) reads \<open>resp.data.id\<close>: a TypeError when there is none.\<close>

definition addNote :: "nat \<Rightarrow> jsstring \<Rightarrow> store \<Rightarrow> (error + nat) \<times> store" where
  "addNote dealId content s =
     (case pdFetch (PostNotes dealId content) s of
        (Inl e, s') \<Rightarrow> (Inl e, s')
      | (Inr resp, s') \<Rightarrow> (case resp of IdData i \<Rightarrow> (Inr i, s') | _ \<Rightarrow> (Inl TypeError, s')))"

section \<open>The regular expressions of the scraper\<close>

text \<open>
  The scraper reads the page with four regular expressions. Each is translated into the
  function that says whether it matches at the start of a string, and with which
  groups; the result holds the rest of the string after the match. JavaScript matches
  by backtracking, and these expressions leave it no choice: a greedy class
  (\<open>[^>]*\<close>, \<open>[^<]+\<close>, \<open>[^"]*\<close>, \<open>\d+\<close>, \<open>\s*\<close>) is followed by a character outside
  the class, so only its longest run can be followed by a match, and the lazy
  \<open>[\s\S]*?\<close> stops at the first offset where the rest of the expression matches.
  The code units: 34 is the double quote, 60 is \<open><\<close>, 62 is \<open>>\<close>.
\<close>

text \<open>The string literals of the scraper.\<close>

definition chatOpen :: jsstring where
  "chatOpen = js ''<div id=\"chat_dv\"''"

definition divClose :: jsstring where
  "divClose = js ''</div>''"

definition chatNext :: jsstring where
  "chatNext = js ''<div style=\"margin-top: 20px;\">''"

definition dateOpen :: jsstring where
  "dateOpen = js ''<div class=\"td15\"''"

definition scriptOpen :: jsstring where
  "scriptOpen = js ''<script>_out_text(\"''"

definition quoteComma :: jsstring where
  "quoteComma = js ''\",''"

definition mailContent :: jsstring where
  "mailContent = js ''\"mail_content_''"

definition scriptClose :: jsstring where
  "scriptClose = js ''\");</script>''"

definition anchorOpen :: jsstring where
  "anchorOpen = js ''<a name=\"''"

definition anchorClose :: jsstring where
  "anchorClose = js ''\"></a>''"

definition divOpen :: jsstring where
  "divOpen = js ''<div''"

definition tdOpen :: jsstring where
  "tdOpen = js ''<td class=''"

definition td15 :: jsstring where
  "td15 = js ''td15''"

definition tdClose :: jsstring where
  "tdClose = js ''</td>''"

definition sentColor :: jsstring where
  "sentColor = js ''#d3f0f8''"

definition unknownDate :: jsstring where
  "unknownDate = js ''Unknown date''"

definition loginPath :: jsstring where
  "loginPath = js ''/login/''"

definition stripPrefix :: "jsstring \<Rightarrow> jsstring \<Rightarrow> jsstring option" where
  "stripPrefix p s = (if startsWith p s then Some (drop (length p) s) else None)"

text \<open>\<open>([\s\S]*?)\<close> followed by the rest of the expression: the group and that rest's result.\<close>

fun lazyBody :: "(jsstring \<Rightarrow> 'a option) \<Rightarrow> jsstring \<Rightarrow> (jsstring \<times> 'a) option" where
  "lazyBody restAt [] = (case restAt [] of Some x \<Rightarrow> Some ([], x) | None \<Rightarrow> None)"
| "lazyBody restAt (c # cs) =
     (case restAt (c # cs) of
        Some x \<Rightarrow> Some ([], x)
      | None \<Rightarrow> (case lazyBody restAt cs of Some (body, x) \<Rightarrow> Some (c # body, x) | None \<Rightarrow> None))"

text \<open>A quote that may be there: \<open>"?\<close>.\<close>

definition optQuote :: "jsstring \<Rightarrow> jsstring" where
  "optQuote s = (case s of [] \<Rightarrow> [] | c # cs \<Rightarrow> if c = 34 then cs else c # cs)"

text \<open>
  Lines 88-90:
  \<^verbatim>\<open>/<div id="chat_dv"[^>]*>([\s\S]*?)<\/div>\s*<div style="margin-top: 20px;">/\<close>
\<close>

definition chatDivEndAt :: "jsstring \<Rightarrow> jsstring option" where
  "chatDivEndAt s =
     (case stripPrefix divClose s of
        None \<Rightarrow> None
      | Some r \<Rightarrow> stripPrefix chatNext (dropWhile isWhiteSpace r))"

definition chatDivAt :: "jsstring \<Rightarrow> jsstring option" where
  "chatDivAt s =
     (case stripPrefix chatOpen s of
        None \<Rightarrow> None
      | Some r \<Rightarrow>
          (case dropWhile (\<lambda>c. c \<noteq> 62) r of
             [] \<Rightarrow> None
           | gt # r1 \<Rightarrow>
               (case lazyBody chatDivEndAt r1 of
                  None \<Rightarrow> None
                | Some (chatContent, rest) \<Rightarrow> Some chatContent)))"

text \<open>\<open>html.match(regex)\<close> without the global flag: the match at the leftmost offset.\<close>

fun matchFirst :: "(jsstring \<Rightarrow> 'a option) \<Rightarrow> jsstring \<Rightarrow> 'a option" where
  "matchFirst regexAt [] = regexAt []"
| "matchFirst regexAt (c # cs) =
     (case regexAt (c # cs) of Some x \<Rightarrow> Some x | None \<Rightarrow> matchFirst regexAt cs)"

text \<open>
  A match object: its offset (\<open>match.index\<close>) and its array, the matched text at 0
  and the groups from 1 on.
\<close>

record rmatch =
  index_x :: nat
  array_x :: "jsstring list"

text \<open>
  All matches of a global expression, from left to right (\<open>matchAll\<close>, and the loop
  over \<open>exec\<close>): the search for the next match starts where the last one ended.
  \<open>skip\<close> counts the code units still covered by the last match. None of the three
  global expressions matches the empty string.
\<close>

fun execAll ::
  "(jsstring \<Rightarrow> (jsstring \<times> jsstring list) option) \<Rightarrow> nat \<Rightarrow> nat \<Rightarrow> jsstring \<Rightarrow> rmatch list" where
  "execAll regexAt skip i [] = []"
| "execAll regexAt skip i (c # cs) =
     (if 0 < skip then execAll regexAt (skip - 1) (Suc i) cs
      else case regexAt (c # cs) of
             None \<Rightarrow> execAll regexAt 0 (Suc i) cs
           | Some (rest, groups) \<Rightarrow>
               (let len = length (c # cs) - length rest
                in \<lparr>index_x = i, array_x = take len (c # cs) # groups\<rparr>
                     # execAll regexAt (len - 1) (Suc i) cs))"

text \<open>
  Line 98: \<^verbatim>\<open>/<div class="td15"[^>]*>\s*([^<]+)\s*<\/div>/g\<close>.
  The text up to the next \<open><\<close> is shared by \<open>\s*\<close>, the group and \<open>\s*\<close>: the
  first takes the leading white space, the group the rest; when the text is all white
  space the group is left its last code unit.
\<close>

definition dateRegexAt :: "jsstring \<Rightarrow> (jsstring \<times> jsstring list) option" where
  "dateRegexAt s =
     (case stripPrefix dateOpen s of
        None \<Rightarrow> None
      | Some r \<Rightarrow>
          (case dropWhile (\<lambda>c. c \<noteq> 62) r of
             [] \<Rightarrow> None
           | gt # r1 \<Rightarrow>
               (let t = takeWhile (\<lambda>c. c \<noteq> 60) r1
                in if t = [] then None
                   else case stripPrefix divClose (dropWhile (\<lambda>c. c \<noteq> 60) r1) of
                          None \<Rightarrow> None
                        | Some rest \<Rightarrow>
                            Some (rest, [if dropWhile isWhiteSpace t = [] then [last t]
                                         else dropWhile isWhiteSpace t]))))"

text \<open>
  Lines 102-103:
  \<^verbatim>\<open>/<script>_out_text\("([^"]*)",\s*"mail_content_(\d+)"\);<\/script>/g\<close>
\<close>

definition scriptRegexAt :: "jsstring \<Rightarrow> (jsstring \<times> jsstring list) option" where
  "scriptRegexAt s =
     (case stripPrefix scriptOpen s of
        None \<Rightarrow> None
      | Some r \<Rightarrow>
          (case stripPrefix quoteComma (dropWhile (\<lambda>c. c \<noteq> 34) r) of
             None \<Rightarrow> None
           | Some r1 \<Rightarrow>
               (case stripPrefix mailContent (dropWhile isWhiteSpace r1) of
                  None \<Rightarrow> None
                | Some r2 \<Rightarrow>
                    if takeWhile isDigit r2 = [] then None
                    else case stripPrefix scriptClose (dropWhile isDigit r2) of
                           None \<Rightarrow> None
                         | Some rest \<Rightarrow>
                             Some (rest, [takeWhile (\<lambda>c. c \<noteq> 34) r, takeWhile isDigit r2]))))"

text \<open>
  Lines 111-112:
  \<^verbatim>\<open>/<a name="(\d+)"><\/a>\s*<div[^>]*>([\s\S]*?)<td class="?td15"?[^>]*>([^<]+)<\/td>/g\<close>
  \<open>timeCellAt\<close> is the expression from \<open><td\<close> on.
\<close>

definition timeCellAt :: "jsstring \<Rightarrow> (jsstring \<times> jsstring) option" where
  "timeCellAt s =
     (case stripPrefix tdOpen s of
        None \<Rightarrow> None
      | Some r \<Rightarrow>
          (case stripPrefix td15 (optQuote r) of
             None \<Rightarrow> None
           | Some r1 \<Rightarrow>
               (case dropWhile (\<lambda>c. c \<noteq> 62) (optQuote r1) of
                  [] \<Rightarrow> None
                | gt # r2 \<Rightarrow>
                    if takeWhile (\<lambda>c. c \<noteq> 60) r2 = [] then None
                    else case stripPrefix tdClose (dropWhile (\<lambda>c. c \<noteq> 60) r2) of
                           None \<Rightarrow> None
                         | Some rest \<Rightarrow> Some (rest, takeWhile (\<lambda>c. c \<noteq> 60) r2))))"

definition messageRegexAt :: "jsstring \<Rightarrow> (jsstring \<times> jsstring list) option" where
  "messageRegexAt s =
     (case stripPrefix anchorOpen s of
        None \<Rightarrow> None
      | Some r \<Rightarrow>
          if takeWhile isDigit r = [] then None
          else case stripPrefix anchorClose (dropWhile isDigit r) of
                 None \<Rightarrow> None
               | Some r1 \<Rightarrow>
                   (case stripPrefix divOpen (dropWhile isWhiteSpace r1) of
                      None \<Rightarrow> None
                    | Some r2 \<Rightarrow>
                        (case dropWhile (\<lambda>c. c \<noteq> 62) r2 of
                           [] \<Rightarrow> None
                         | gt # r3 \<Rightarrow>
                             (case lazyBody timeCellAt r3 of
                                None \<Rightarrow> None
                              | Some (messageBlock, rest, time) \<Rightarrow>
                                  Some (rest, [takeWhile isDigit r, messageBlock, time])))))"

section \<open>fetchAllMessages\<close>

text \<open>What \<open>fetch\<close> resolves to: the final URL and the body.\<close>

record httpResponse =
  url_h :: jsstring
  html_h :: jsstring

text \<open>
  \<open>parseInt\<close> of a message id. An id is a run of digits, not empty (group 1 of the
  message expression), so \<open>parseInt\<close> reads all of it, in radix 10, and returns a
  Number. \<open>numericValue\<close> is the integer the digits write; \<open>toNumber\<close> is the
  Number nearest to an integer that is not negative: the integer itself below
  \<open>2 ^ 53\<close>, beyond that the nearest integer with 53 significant bits, the even one
  of two that are equally near, and \<open>Infinity\<close> from \<open>2 ^ 1024 - 2 ^ 970\<close> on.
  \<open>Infinity\<close> is written \<open>2 ^ 1024\<close>, which is above every other Number: the
  comparison function of \<open>sort\<close> only subtracts two results of \<open>parseInt\<close>, and
  \<open>Infinity - Infinity\<close> is \<open>NaN\<close>, which \<open>sort\<close> takes for 0.
\<close>

definition numericValue :: "jsstring \<Rightarrow> int" where
  "numericValue s = foldl (\<lambda>n c. 10 * n + (c - 48)) 0 (takeWhile isDigit s)"

function bitLength :: "int \<Rightarrow> nat" where
  "bitLength n = (if n \<le> 0 then 0 else Suc (bitLength (n div 2)))"
  by pat_completeness auto
termination
  by (relation "measure nat") auto

declare bitLength.simps [simp del]

definition toNumber :: "int \<Rightarrow> int" where
  "toNumber n =
     (if n < 2 ^ 53 then n
      else (let e = bitLength n - 53;
                q = n div 2 ^ e;
                r = n mod 2 ^ e;
                m = (if 2 ^ e < 2 * r \<or> (2 * r = 2 ^ e \<and> odd q) then q + 1 else q)
            in if 2 ^ 1024 \<le> m * 2 ^ e then 2 ^ 1024 else m * 2 ^ e))"

definition parseInt :: "jsstring \<Rightarrow> int" where
  "parseInt s = toNumber (numericValue s)"

text \<open>
  Lines 125-133, the inner loop: the date pointer moves over every date header whose
  text is found (\<open>indexOf\<close>) before the offset of the message block.
\<close>

function advanceDate ::
  "jsstring \<Rightarrow> rmatch list \<Rightarrow> nat \<Rightarrow> nat \<times> jsstring option \<Rightarrow> nat \<times> jsstring option" where
  "advanceDate chatContent dateMatches matchIndex (dateIndex, currentDate) =
     (if dateIndex < length dateMatches then
        (let datePos = indexOf chatContent (array_x (dateMatches ! dateIndex) ! 0)
         in if datePos < int matchIndex then
              advanceDate chatContent dateMatches matchIndex
                (Suc dateIndex, Some (trim (array_x (dateMatches ! dateIndex) ! 1)))
            else (dateIndex, currentDate))
      else (dateIndex, currentDate))"
  by pat_completeness auto
termination
  by (relation "measure (\<lambda>(c, dm, i, di, cd). length dm - di)") auto

declare advanceDate.simps [simp del]

text \<open>
  Lines 119-151, the loop over the message blocks. The result is the messages pushed,
  in the order of the blocks, and the ids of the blocks skipped with a warning on the
  console.
\<close>

fun messageLoop ::
  "jsstring \<Rightarrow> rmatch list \<Rightarrow> (jsstring \<rightharpoonup> jsstring) \<Rightarrow> rmatch list \<Rightarrow> nat \<times> jsstring option
     \<Rightarrow> message list \<times> jsstring list" where
  "messageLoop chatContent dateMatches messageTexts [] dateState = ([], [])"
| "messageLoop chatContent dateMatches messageTexts (match # rest) dateState =
     (let messageId = array_x match ! 1;
          messageBlock = array_x match ! 2;
          time = trim (array_x match ! 3);
          dateState' = advanceDate chatContent dateMatches (index_x match) dateState;
          currentDate = snd dateState';
          text = (case messageTexts messageId of None \<Rightarrow> [] | Some t \<Rightarrow> t);
          (messages, skipped) = messageLoop chatContent dateMatches messageTexts rest dateState'
      in if text = [] then (messages, messageId # skipped)
         else (let isSent = includes_js messageBlock sentColor
               in (\<lparr>id_m = messageId, text_m = text, time_m = time,
                     date_m = (case currentDate of
                                 None \<Rightarrow> unknownDate
                               | Some d \<Rightarrow> if d = [] then unknownDate else d),
                     direction_m = (if isSent then Sent else Received)\<rparr> # messages,
                   skipped)))"

text \<open>
  Lines 104-108: the map from message id to message text; a later script of the same
  id replaces an earlier one.
\<close>

definition messageTextsOf :: "rmatch list \<Rightarrow> (jsstring \<rightharpoonup> jsstring)" where
  "messageTextsOf scriptMatches =
     foldl (\<lambda>m scriptMatch. m(array_x scriptMatch ! 2 \<mapsto> array_x scriptMatch ! 1))
       Map.empty scriptMatches"

text \<open>
  \<open>fetchAllMessages\<close> (lines 69-158). \<open>fetch\<close> is the network: the response for a URL
  and a cookie string. \<open>Array.prototype.sort\<close> is stable.
\<close>

definition fetchAllMessages ::
  "(jsstring \<Rightarrow> jsstring \<Rightarrow> httpResponse) \<Rightarrow> jsstring \<Rightarrow> jsstring
     \<Rightarrow> error + message list \<times> jsstring list" where
  "fetchAllMessages fetch cookieString url =
     (let response = fetch url cookieString
      in if url_h response \<noteq> [] \<and> includes_js (url_h response) loginPath
         then Inl SessionExpired
         else case matchFirst chatDivAt (html_h response) of
                None \<Rightarrow> Inl ChatDivNotFound
              | Some chatContent \<Rightarrow>
                  if length chatContent < 50 then Inl ChatDivEmpty
                  else (let dateMatches = execAll dateRegexAt 0 0 chatContent;
                            messageTexts = messageTextsOf (execAll scriptRegexAt 0 0 chatContent);
                            (messages, skipped) =
                               messageLoop chatContent dateMatches messageTexts
                                 (execAll messageRegexAt 0 0 chatContent) (0, None)
                        in Inr (sort_key (\<lambda>a. parseInt (id_m a)) messages, skipped)))"

section \<open>main: the duplicate check and the new deal\<close>

text \<open>
  What the module has before \<open>main\<close> runs (lines 11-57): the thread URL, the
  configuration of the sender and the third argument of the command line, from which
  the contact's display name is computed.
\<close>

record config =
  sourceChannelOptionId :: nat
  sourceCompanyOptionId :: nat
  dealTitlePrefix :: jsstring

record env =
  conversationUrl :: jsstring
  cfg :: config
  argv4 :: "jsstring option"

text \<open>Line 13: \<open>(process.argv[4] || 'Unknown').trim()\<close>.\<close>

definition contactPersonName :: "env \<Rightarrow> jsstring" where
  "contactPersonName env =
     trim (case argv4 env of None \<Rightarrow> js ''Unknown'' | Some a \<Rightarrow> if a = [] then js ''Unknown'' else a)"

text \<open>Lines 14-15: \<open>contactPersonName.split(' ')[0] || contactPersonName\<close>.\<close>

definition contactPersonFirstName :: "env \<Rightarrow> jsstring" where
  "contactPersonFirstName env =
     (let t = hd (split_js 32 (contactPersonName env))
      in if t = [] then contactPersonName env else t)"

datatype action = created_new_deal | synced_notes_to_existing_deal

text \<open>What \<open>main\<close> reports when it is done (lines 360-363).\<close>

record result =
  personId_r :: nat
  dealId_r :: nat
  notesAdded_r :: nat
  resultAction_r :: action

text \<open>\<open>existingNotes.some((n) => (n.content || '').includes(t))\<close>.\<close>

definition someIncludes :: "dealnote list \<Rightarrow> jsstring \<Rightarrow> bool" where
  "someIncludes existingNotes t =
     list_ex (\<lambda>n. includes_js (case content_n n of None \<Rightarrow> [] | Some c \<Rightarrow> c) t) existingNotes"

text \<open>
  Lines 295-312: the loop over the messages of the thread, for the deal that holds the
  first message. The notes it tests against are the ones fetched before the loop.
\<close>

fun syncLoop ::
  "nat \<Rightarrow> dealnote list \<Rightarrow> message list \<Rightarrow> nat \<Rightarrow> store \<Rightarrow> (error + nat) \<times> store" where
  "syncLoop dealId existingNotes [] notesAdded s = (Inr notesAdded, s)"
| "syncLoop dealId existingNotes (message # rest) notesAdded s =
     (let alreadyAdded = someIncludes existingNotes (text_m message)
      in if \<not> alreadyAdded then
           (case addNote dealId (formatNoteHtml message) s of
              (Inl e, s') \<Rightarrow> (Inl e, s')
            | (Inr noteId, s') \<Rightarrow> syncLoop dealId existingNotes rest (Suc notesAdded) s')
         else syncLoop dealId existingNotes rest notesAdded s)"

text \<open>
  Lines 282-317: the loop over the deals of the person; it breaks at the first deal
  whose notes hold the text of the first message. The result is the deal's id and the
  number of notes added, or nothing when the loop runs to its end.
\<close>

fun dealLoop ::
  "message \<Rightarrow> message list \<Rightarrow> deal list \<Rightarrow> store \<Rightarrow> (error + (nat \<times> nat) option) \<times> store" where
  "dealLoop firstMessage messages [] s = (Inr None, s)"
| "dealLoop firstMessage messages (deal # rest) s =
     (case getNotesForDeal (id_d deal) s of
        (Inl e, s') \<Rightarrow> (Inl e, s')
      | (Inr existingNotes, s') \<Rightarrow>
          (let hasFirstMessage = someIncludes existingNotes (text_m firstMessage)
           in if hasFirstMessage then
                (case syncLoop (id_d deal) existingNotes messages 0 s' of
                   (Inl e, s'') \<Rightarrow> (Inl e, s'')
                 | (Inr notesAdded, s'') \<Rightarrow> (Inr (Some (id_d deal, notesAdded)), s''))
              else dealLoop firstMessage messages rest s'))"

text \<open>Lines 350-355: every message of the thread becomes a note of the new deal.\<close>

fun createLoop ::
  "nat \<Rightarrow> message list \<Rightarrow> nat \<Rightarrow> store \<Rightarrow> (error + nat) \<times> store" where
  "createLoop dealId [] notesAdded s = (Inr notesAdded, s)"
| "createLoop dealId (message # rest) notesAdded s =
     (case addNote dealId (formatNoteHtml message) s of
        (Inl e, s') \<Rightarrow> (Inl e, s')
      | (Inr noteId, s') \<Rightarrow> createLoop dealId rest (Suc notesAdded) s')"

text \<open>Lines 253-254: the title of a new deal and the note that links to the thread.\<close>

definition dealTitle :: "env \<Rightarrow> message \<Rightarrow> jsstring" where
  "dealTitle env firstMessage =
     dealTitlePrefix (cfg env) @ js '' - '' @ contactPersonFirstName env @ js '' - \"''
       @ take 10 (text_m firstMessage) @ js ''...\"''"

definition noteLink :: "env \<Rightarrow> jsstring" where
  "noteLink env =
     js ''<div style=\"font-size:11px; color:#999; margin-bottom:8px;\"><b>SS thread:</b> <a href=\"''
       @ conversationUrl env @ js ''\">'' @ conversationUrl env @ js ''</a></div>''"

text \<open>
  Lines 271-318 (step 4): the person with the contact's first name, and among that
  person's deals the one that holds the first message.
\<close>

definition duplicateCheck ::
  "(jsstring \<Rightarrow> jsstring) \<Rightarrow> env \<Rightarrow> message \<Rightarrow> message list \<Rightarrow> store
     \<Rightarrow> (error + person option \<times> (nat \<times> nat) option) \<times> store" where
  "duplicateCheck toLowerCase env firstMessage messages s =
     (case findPersonByFirstName toLowerCase (contactPersonFirstName env) s of
        (Inl e, s1) \<Rightarrow> (Inl e, s1)
      | (Inr None, s1) \<Rightarrow> (Inr (None, None), s1)
      | (Inr (Some existingPerson), s1) \<Rightarrow>
          (case getDealsForPerson (id_p existingPerson) s1 of
             (Inl e, s2) \<Rightarrow> (Inl e, s2)
           | (Inr deals, s2) \<Rightarrow>
               (case dealLoop firstMessage messages deals s2 of
                  (Inl e, s3) \<Rightarrow> (Inl e, s3)
                | (Inr found, s3) \<Rightarrow> (Inr (Some existingPerson, found), s3))))"

text \<open>
  Lines 335-341: the body of the request that creates the deal, an object literal. An
  object literal defines its properties one after the other, and defining a name again
  replaces its value: that is map update. The names of the last two properties are
  computed, they are the keys resolved in step 3, so a key that is \<open>title\<close>,
  \<open>user_id\<close> or \<open>person_id\<close>, or the other key, replaces the value defined before it
  under that name.
\<close>

definition dealBody :: "env \<Rightarrow> message \<Rightarrow> nat \<Rightarrow> jsstring \<Rightarrow> jsstring \<Rightarrow> jsobject" where
  "dealBody env firstMessage personId sourceChannelKey sourceCompanyKey =
     [js ''title'' \<mapsto> Str (dealTitle env firstMessage),
      js ''user_id'' \<mapsto> Num DEAL_OWNER_USER_ID,
      js ''person_id'' \<mapsto> Num personId,
      sourceChannelKey \<mapsto> Num (sourceChannelOptionId (cfg env)),
      sourceCompanyKey \<mapsto> Num (sourceCompanyOptionId (cfg env))]"

text \<open>Lines 321-358 (step 5): no deal holds the first message.\<close>

definition createNew ::
  "env \<Rightarrow> message \<Rightarrow> message list \<Rightarrow> jsstring \<Rightarrow> jsstring \<Rightarrow> person option \<Rightarrow> store
     \<Rightarrow> (error + result) \<times> store" where
  "createNew env firstMessage messages sourceChannelKey sourceCompanyKey existingPerson s =
     (case (case existingPerson of
              Some p \<Rightarrow> (Inr (id_p p), s)
            | None \<Rightarrow>
                (case pdFetch (PostPersons (contactPersonName env) DEAL_OWNER_USER_ID) s of
                   (Inl e, s') \<Rightarrow> (Inl e, s')
                 | (Inr created, s') \<Rightarrow>
                     (case created of IdData i \<Rightarrow> (Inr i, s') | _ \<Rightarrow> (Inl TypeError, s')))) of
        (Inl e, s1) \<Rightarrow> (Inl e, s1)
      | (Inr personId, s1) \<Rightarrow>
          (case pdFetch (PostDeals
                   (dealBody env firstMessage personId sourceChannelKey sourceCompanyKey)) s1 of
             (Inl e, s2) \<Rightarrow> (Inl e, s2)
           | (Inr createdDeal, s2) \<Rightarrow>
               (case createdDeal of
                  IdData dealId \<Rightarrow>
                    (case addNote dealId (noteLink env) s2 of
                       (Inl e, s3) \<Rightarrow> (Inl e, s3)
                     | (Inr noteId, s3) \<Rightarrow>
                         (case createLoop dealId messages 0 s3 of
                            (Inl e, s4) \<Rightarrow> (Inl e, s4)
                          | (Inr notesAdded, s4) \<Rightarrow>
                              (Inr \<lparr>personId_r = personId, dealId_r = dealId,
                                    notesAdded_r = notesAdded,
                                    resultAction_r = created_new_deal\<rparr>, s4)))
                | _ \<Rightarrow> (Inl TypeError, s2))))"

text \<open>
  Lines 249-364: \<open>main\<close> from the check of the parsed messages on. A key that is
  undefined or empty is not resolved (\<open>!sourceChannelKey\<close>).
\<close>

definition reconcile ::
  "(jsstring \<Rightarrow> jsstring) \<Rightarrow> env \<Rightarrow> message list \<Rightarrow> store \<Rightarrow> (error + result) \<times> store" where
  "reconcile toLowerCase env messages s =
     (case messages of
        [] \<Rightarrow> (Inl NoMessagesFound, s)
      | firstMessage # others \<Rightarrow>
          (case getDealFieldKeys s of
             (Inl e, s1) \<Rightarrow> (Inl e, s1)
           | (Inr (sourceChannelKey, sourceCompanyKey), s1) \<Rightarrow>
               (case (sourceChannelKey, sourceCompanyKey) of
                  (Some channelKey, Some companyKey) \<Rightarrow>
                    if channelKey = [] \<or> companyKey = [] then (Inl FieldKeysUnresolved, s1)
                    else
                      (case duplicateCheck toLowerCase env firstMessage messages s1 of
                         (Inl e, s2) \<Rightarrow> (Inl e, s2)
                       | (Inr (Some existingPerson, Some (dealId, notesAdded)), s2) \<Rightarrow>
                           (Inr \<lparr>personId_r = id_p existingPerson, dealId_r = dealId,
                                 notesAdded_r = notesAdded,
                                 resultAction_r = synced_notes_to_existing_deal\<rparr>, s2)
                       | (Inr (existingPerson, _), s2) \<Rightarrow>
                           createNew env firstMessage messages channelKey companyKey
                             existingPerson s2)
                | _ \<Rightarrow> (Inl FieldKeysUnresolved, s1))))"

text \<open>
  What \<open>main\<close> finds outside the program: the cookie string of the file
  \<open>ss-lv-cookies.json\<close>, when the file is there, and the network.
\<close>

record world =
  cookieFile :: "jsstring option"
  network :: "jsstring \<Rightarrow> jsstring \<Rightarrow> httpResponse"

definition loadCookies :: "world \<Rightarrow> error + jsstring" where
  "loadCookies w = (case cookieFile w of None \<Rightarrow> Inl NoCookies | Some cookieString \<Rightarrow> Inr cookieString)"

text \<open>\<open>main\<close> (lines 238-364).\<close>

definition main ::
  "(jsstring \<Rightarrow> jsstring) \<Rightarrow> env \<Rightarrow> world \<Rightarrow> store \<Rightarrow> (error + result) \<times> store" where
  "main toLowerCase env w s =
     (case loadCookies w of
        Inl e \<Rightarrow> (Inl e, s)
      | Inr cookieString \<Rightarrow>
          (case fetchAllMessages (network w) cookieString (conversationUrl env) of
             Inl e \<Rightarrow> (Inl e, s)
           | Inr (messages, skipped) \<Rightarrow> reconcile toLowerCase env messages s))"

section \<open>Vocabulary for the effects on the store\<close>

text \<open>
  The theorems say what a run leaves in the store. These definitions name it: the store
  after more requests were logged, after notes were posted to a deal, after a person or
  a deal was created; the notes of a deal and the deals of a person as the gateway lists
  them; the person the search and the first-name test select; the deal that holds the
  text of the first message; the messages not yet held by the notes of a deal.
\<close>

definition logged :: "request list \<Rightarrow> store \<Rightarrow> store" where
  "logged rs s = s\<lparr>requests_s := requests_s s @ rs\<rparr>"

definition notesOf :: "store \<Rightarrow> nat \<Rightarrow> dealnote list" where
  "notesOf s dealId = filter (\<lambda>n. deal_id_n n = dealId) (notes_s s)"

fun notesFrom :: "nat \<Rightarrow> nat \<Rightarrow> jsstring list \<Rightarrow> dealnote list" where
  "notesFrom dealId i [] = []"
| "notesFrom dealId i (c # cs) =
     \<lparr>id_n = i, deal_id_n = dealId, content_n = Some c\<rparr> # notesFrom dealId (Suc i) cs"

definition posted :: "nat \<Rightarrow> jsstring list \<Rightarrow> store \<Rightarrow> store" where
  "posted dealId cs s =
     s\<lparr>notes_s := notes_s s @ notesFrom dealId (nextId_s s) cs,
       nextId_s := nextId_s s + length cs,
       requests_s := requests_s s @ map (PostNotes dealId) cs\<rparr>"

definition missing :: "dealnote list \<Rightarrow> message list \<Rightarrow> message list" where
  "missing existingNotes messages =
     filter (\<lambda>m. \<not> someIncludes existingNotes (text_m m)) messages"

definition owns :: "store \<Rightarrow> message \<Rightarrow> deal \<Rightarrow> bool" where
  "owns s firstMessage d = someIncludes (notesOf s (id_d d)) (text_m firstMessage)"

definition withPerson :: "jsstring \<Rightarrow> nat \<Rightarrow> store \<Rightarrow> store" where
  "withPerson name owner s =
     s\<lparr>persons_s := persons_s s @ [\<lparr>id_p = nextId_s s, name_p = Some name\<rparr>],
       nextId_s := Suc (nextId_s s),
       requests_s := requests_s s @ [PostPersons name owner]\<rparr>"

definition withDeal :: "jsobject \<Rightarrow> store \<Rightarrow> store" where
  "withDeal body s =
     s\<lparr>deals_s := deals_s s @ [\<lparr>id_d = nextId_s s, fields_d = body, deleted_d = False\<rparr>],
       nextId_s := Suc (nextId_s s),
       requests_s := requests_s s @ [PostDeals body]\<rparr>"

definition matchPerson :: "(jsstring \<Rightarrow> jsstring) \<Rightarrow> jsstring \<Rightarrow> store \<Rightarrow> person option" where
  "matchPerson lc firstName s =
     List.find
       (\<lambda>i. lc (hd (split_js 32 (case name_p i of None \<Rightarrow> [] | Some n \<Rightarrow> n))) = lc firstName)
       (filter (hit_s s firstName) (persons_s s))"

definition dealsOf :: "store \<Rightarrow> nat \<Rightarrow> deal list" where
  "dealsOf s personId =
     filter (\<lambda>d. personOf d = Some (Num personId) \<and> \<not> deleted_d d) (deals_s s)"


definition fieldKey :: "store \<Rightarrow> nat \<Rightarrow> jsstring option" where
  "fieldKey s fieldId = map_of (rev (dealFields_s s)) fieldId"

text \<open>The deals whose notes a run fetched, in the order of its requests.\<close>

fun notesFetched :: "request list \<Rightarrow> nat list" where
  "notesFetched [] = []"
| "notesFetched (GetNotes dealId # rs) = dealId # notesFetched rs"
| "notesFetched (r # rs) = notesFetched rs"

text \<open>The ids in use, and the ids the records refer to, are below the next free id.\<close>

definition freshIds :: "store \<Rightarrow> bool" where
  "freshIds s =
     (list_all (\<lambda>p. id_p p < nextId_s s) (persons_s s)
      \<and> list_all (\<lambda>d. id_d d < nextId_s s
                      \<and> (case personOf d of Some (Num i) \<Rightarrow> i < nextId_s s | _ \<Rightarrow> True))
           (deals_s s)
      \<and> list_all (\<lambda>n. id_n n < nextId_s s \<and> deal_id_n n < nextId_s s) (notes_s s))"

section \<open>Vocabulary for the parsed page\<close>

text \<open>The id of a message block: group 1 of its match.\<close>

definition blockId :: "rmatch \<Rightarrow> jsstring" where
  "blockId b = array_x b ! 1"

text \<open>The text lookup has a text for the id, and the text is not empty.\<close>

definition hasText :: "(jsstring \<rightharpoonup> jsstring) \<Rightarrow> jsstring \<Rightarrow> bool" where
  "hasText messageTexts i = (case messageTexts i of None \<Rightarrow> False | Some t \<Rightarrow> t \<noteq> [])"

text \<open>The date headers, the text lookup and the message blocks of a chat region.\<close>

definition datesOf :: "jsstring \<Rightarrow> rmatch list" where
  "datesOf chatContent = execAll dateRegexAt 0 0 chatContent"

definition textsOf :: "jsstring \<Rightarrow> (jsstring \<rightharpoonup> jsstring)" where
  "textsOf chatContent = messageTextsOf (execAll scriptRegexAt 0 0 chatContent)"

definition blocksOf :: "jsstring \<Rightarrow> rmatch list" where
  "blocksOf chatContent = execAll messageRegexAt 0 0 chatContent"

text \<open>
  The date text of the nearest date header before an offset: the trimmed group of the
  last header, in document order, whose own offset (\<open>index_x\<close>) is smaller.
\<close>

definition nearestDate :: "rmatch list \<Rightarrow> nat \<Rightarrow> jsstring option" where
  "nearestDate dateMatches offset =
     (case filter (\<lambda>d. index_x d < offset) dateMatches of
        [] \<Rightarrow> None
      | ds \<Rightarrow> Some (trim (array_x (last ds) ! 1)))"





section \<open>Vocabulary for the contact match\<close>

text \<open>The first token of a string, delimited by the space character U+0020.\<close>

definition firstSpaceToken :: "jsstring \<Rightarrow> jsstring" where
  "firstSpaceToken s = takeWhile (\<lambda>c. c \<noteq> 32) s"

text \<open>
  The first whitespace-delimited token of a string, as the specification words the
  contact match; it is compared with what the program does, which splits at the space.
\<close>

definition firstWhitespaceToken :: "jsstring \<Rightarrow> jsstring" where
  "firstWhitespaceToken s = takeWhile (\<lambda>c. \<not> isWhiteSpace c) s"

text \<open>\<open>i.item.name || ''\<close>.\<close>

definition nameOf :: "person \<Rightarrow> jsstring" where
  "nameOf i = (case name_p i of None \<Rightarrow> [] | Some n \<Rightarrow> n)"

section \<open>Example pages, threads and stores\<close>

text \<open>
  Concrete inputs on which the theorems below are run: chat regions and the pages
  around them, the messages they parse to, a store without records and a store with
  two persons, five deals and six notes. \<open>toLowerCaseBasic\<close> lowers the letters A to
  Z and leaves every other code unit as it is; on the names used here it agrees with
  \<open>String.prototype.toLowerCase\<close>, since their other letters are lower case already.
\<close>

definition servePage :: "jsstring \<Rightarrow> jsstring \<Rightarrow> jsstring \<Rightarrow> httpResponse" where
  "servePage html url cookieString = \<lparr>url_h = url, html_h = html\<rparr>"

definition pageOf :: "jsstring \<Rightarrow> jsstring" where
  "pageOf chatContent =
     js ''<div id=\"chat_dv\">'' @ chatContent @ js ''</div><div style=\"margin-top: 20px;\">''"

definition chatA :: jsstring where
  "chatA = concat
     [js ''<div class=\"td15\">Mon</div>'',
      js ''<a name=\"5\"></a><div>#d3f0f8<td class=td15>10:05</td>'',
      js ''<script>_out_text(\"Sveiki\",\"mail_content_5\");</script>'',
      js ''<div class=\"td15\">Tue</div>'',
      js ''<a name=\"3\"></a><div><td class=td15>09:00</td>'',
      js ''<script>_out_text(\"Labdien\",\"mail_content_3\");</script>'',
      js ''<a name=\"9\"></a><div><td class=td15>11:00</td>'',
      js ''<script>_out_text(\"Paldies\",\"mail_content_9\");</script>'']"

definition chatRep :: jsstring where
  "chatRep = concat
     [js ''<div class=\"td15\">A</div>'',
      js ''<div class=\"td15\">B</div>'',
      js ''<a name=\"1\"></a><div><td class=td15>1</td>'',
      js ''<script>_out_text(\"x\",\"mail_content_1\");</script>'',
      js ''<div class=\"td15\">A</div>'']"


definition chatDup :: jsstring where
  "chatDup = concat
     [js ''<a name=\"7\"></a><div><td class=td15>1</td>'',
      js ''<script>_out_text(\"x\",\"mail_content_7\");</script>'',
      js ''<a name=\"7\"></a><div><td class=td15>2</td>'']"

definition chatSkip :: jsstring where
  "chatSkip = concat
     [js ''<a name=\"1\"></a><div><td class=td15>1</td>'',
      js ''<script>_out_text(\"\",\"mail_content_1\");</script>'',
      js ''<a name=\"2\"></a><div><td class=td15>2</td>'',
      js ''<a name=\"4\"></a><div><td class=td15>3</td>'',
      js ''<script>_out_text(\"x\",\"mail_content_4\");</script>'']"


definition chatBig :: jsstring where
  "chatBig = concat
     [js ''<a name=\"9007199254740993\"></a><div><td class=td15>1</td>'',
      js ''<script>_out_text(\"x\",\"mail_content_9007199254740993\");</script>'',
      js ''<a name=\"9007199254740992\"></a><div><td class=td15>2</td>'',
      js ''<script>_out_text(\"y\",\"mail_content_9007199254740992\");</script>'']"

definition chatNone :: jsstring where
  "chatNone = concat
     [js ''<p>no messages in this conversation yet, come back later</p>'']"


definition m3 :: message where
  "m3 = \<lparr>id_m = js ''3'', text_m = js ''Labdien'', time_m = js ''09:00'', date_m = js ''Tue'',
          direction_m = Received\<rparr>"

definition m5 :: message where
  "m5 = \<lparr>id_m = js ''5'', text_m = js ''Sveiki'', time_m = js ''10:05'', date_m = js ''Mon'',
          direction_m = Sent\<rparr>"

definition m9 :: message where
  "m9 = \<lparr>id_m = js ''9'', text_m = js ''Paldies'', time_m = js ''11:00'', date_m = js ''Tue'',
          direction_m = Received\<rparr>"

definition mVai :: message where
  "mVai = \<lparr>id_m = js ''5'',
            text_m = js ''Vai auto v'' @ [275] @ js ''l p'' @ [257] @ js ''rdo'' @ [353]
                     @ js ''an'' @ [257, 63],
            time_m = js ''09:30'', date_m = js ''Tue'', direction_m = Received\<rparr>"

definition dup1 :: message where
  "dup1 = \<lparr>id_m = js ''7'', text_m = js ''x'', time_m = js ''1'', date_m = js ''Unknown date'',
            direction_m = Received\<rparr>"

definition dup2 :: message where
  "dup2 = \<lparr>id_m = js ''7'', text_m = js ''x'', time_m = js ''2'', date_m = js ''Unknown date'',
            direction_m = Received\<rparr>"

definition big1 :: message where
  "big1 = \<lparr>id_m = js ''9007199254740993'', text_m = js ''x'', time_m = js ''1'',
            date_m = js ''Unknown date'', direction_m = Received\<rparr>"

definition big2 :: message where
  "big2 = \<lparr>id_m = js ''9007199254740992'', text_m = js ''y'', time_m = js ''2'',
            date_m = js ''Unknown date'', direction_m = Received\<rparr>"

definition repMessage :: message where
  "repMessage = \<lparr>id_m = js ''1'', text_m = js ''x'', time_m = js ''1'', date_m = js ''A'',
                  direction_m = Received\<rparr>"


definition skipMessage :: message where
  "skipMessage = \<lparr>id_m = js ''4'', text_m = js ''x'', time_m = js ''3'',
                   date_m = js ''Unknown date'', direction_m = Received\<rparr>"

definition toLowerCaseBasic :: "jsstring \<Rightarrow> jsstring" where
  "toLowerCaseBasic s = map (\<lambda>c. if 65 \<le> c \<and> c \<le> 90 then c + 32 else c) s"

definition janisBerzins :: jsstring where
  "janisBerzins = [106, 257, 110, 105, 115, 32, 98, 275, 114, 122, 105, 326, 353]"

definition exampleEnv :: env where
  "exampleEnv =
     \<lparr>conversationUrl = js ''https://www.ss.lv/msg/1'',
      cfg = \<lparr>sourceChannelOptionId = 70, sourceCompanyOptionId = 47,
             dealTitlePrefix = js ''SS Cartom''\<rparr>,
      argv4 = Some janisBerzins\<rparr>"

definition exampleWorld :: "jsstring \<Rightarrow> world" where
  "exampleWorld html = \<lparr>cookieFile = Some (js ''sid=1''), network = servePage html\<rparr>"

definition emptyStore :: store where
  "emptyStore =
     \<lparr>persons_s = [], deals_s = [], notes_s = [],
      dealFields_s = [(36, js ''channel_key''), (49, js ''company_key'')],
      nextId_s = 1, hit_s = (\<lambda>q p. True), rejects_s = (\<lambda>n r. False), requests_s = []\<rparr>"

definition dealOf :: "nat \<Rightarrow> jsstring \<Rightarrow> nat \<Rightarrow> bool \<Rightarrow> deal" where
  "dealOf i title personId deleted =
     \<lparr>id_d = i,
      fields_d = [js ''title'' \<mapsto> Str title, js ''user_id'' \<mapsto> Num 7,
                  js ''person_id'' \<mapsto> Num personId],
      deleted_d = deleted\<rparr>"

definition janis :: person where
  "janis = \<lparr>id_p = 2, name_p = Some ([74, 257, 110, 105, 115] @ js '' Kalns'')\<rparr>"

definition exampleStore :: store where
  "exampleStore =
     \<lparr>persons_s = [\<lparr>id_p = 1, name_p = Some [74, 257, 110, 105]\<rparr>, janis],
      deals_s =
        [dealOf 8 (js ''old'') 2 True,
         dealOf 9 (js ''other'') 1 False,
         dealOf 10 (js ''first'') 2 False,
         dealOf 11 (js ''second'') 2 False,
         dealOf 12 (js ''third'') 2 False],
      notes_s =
        [\<lparr>id_n = 20, deal_id_n = 8, content_n = Some (js ''Labdien'')\<rparr>,
         \<lparr>id_n = 21, deal_id_n = 9, content_n = Some (js ''Labdien'')\<rparr>,
         \<lparr>id_n = 22, deal_id_n = 10, content_n = Some (js ''Sveiki'')\<rparr>,
         \<lparr>id_n = 23, deal_id_n = 10, content_n = None\<rparr>,
         \<lparr>id_n = 24, deal_id_n = 11, content_n = Some (js ''<p>[09:00] Labdien!</p>'')\<rparr>,
         \<lparr>id_n = 25, deal_id_n = 12, content_n = Some (js ''Labdien'')\<rparr>],
      dealFields_s = [(36, js ''channel_key''), (49, js ''company_key'')],
      nextId_s = 30, hit_s = (\<lambda>q p. True), rejects_s = (\<lambda>n r. False), requests_s = []\<rparr>"

definition annaLiepa :: jsstring where
  "annaLiepa = js ''Anna'' @ [9] @ js ''Liepa''"

definition anna :: person where
  "anna = \<lparr>id_p = 1, name_p = Some (js ''Anna'')\<rparr>"

definition annaStore :: store where
  "annaStore = emptyStore\<lparr>persons_s := [anna], nextId_s := 2\<rparr>"

definition annaEnv :: env where
  "annaEnv = exampleEnv\<lparr>argv4 := Some annaLiepa\<rparr>"

text \<open>A store whose search returns nobody, and two whose field 36 has the key of a
  property that the body of a new deal has already.\<close>

definition deafStore :: store where
  "deafStore = emptyStore\<lparr>hit_s := (\<lambda>q p. False)\<rparr>"

definition personKeyStore :: store where
  "personKeyStore =
     emptyStore\<lparr>dealFields_s := [(36, js ''person_id''), (49, js ''company_key'')]\<rparr>"


section \<open>Facts about strings\<close>

lemma startsWith_append: "startsWith p (p @ r)"
  by (induction p) auto

lemma startsWith_iff: "startsWith p s \<longleftrightarrow> (\<exists>r. s = p @ r)"
proof
  show "startsWith p s \<Longrightarrow> \<exists>r. s = p @ r"
    by (induction p s rule: startsWith.induct) auto
next
  show "\<exists>r. s = p @ r \<Longrightarrow> startsWith p s"
    using startsWith_append by auto
qed

lemma includes_js_iff: "includes_js s p \<longleftrightarrow> (\<exists>a b. s = a @ p @ b)"
proof (induction s)
  case Nil
  then show ?case by (auto simp: startsWith_iff)
next
  case (Cons c cs)
  show ?case
  proof
    assume "includes_js (c # cs) p"
    then consider "startsWith p (c # cs)" | "includes_js cs p" by auto
    then show "\<exists>a b. c # cs = a @ p @ b"
    proof cases
      case 1
      then obtain r where "c # cs = p @ r" by (auto simp: startsWith_iff)
      then have "c # cs = [] @ p @ r" by simp
      then show ?thesis by blast
    next
      case 2
      then obtain a b where "cs = a @ p @ b" using Cons.IH by auto
      then have "c # cs = (c # a) @ p @ b" by simp
      then show ?thesis by blast
    qed
  next
    assume "\<exists>a b. c # cs = a @ p @ b"
    then obtain a b where ab: "c # cs = a @ p @ b" by auto
    show "includes_js (c # cs) p"
    proof (cases a)
      case Nil
      then have "startsWith p (c # cs)" using ab by (auto simp: startsWith_iff)
      then show ?thesis by simp
    next
      case (Cons x a')
      then have "cs = a' @ p @ b" using ab by simp
      then show ?thesis using Cons.IH by auto
    qed
  qed
qed

lemma trim_framed:
  assumes "\<not> isWhiteSpace x" and "\<not> isWhiteSpace y"
  shows "trim (x # mid @ [y]) = x # mid @ [y]"
  using assms by (simp add: trim_def)

lemma formatNoteHtml_framed:
  "\<exists>a b. formatNoteHtml m = a @ js ''\<newline>    '' @ text_m m @ js ''\<newline>  </div>'' @ b"
proof -
  define pre where "pre = concat
        [js ''div style=\"border-left: 4px solid '',
         (if direction_m m = Sent then js ''#2196F3'' else js ''#4CAF50''),
         js ''; padding: 6px 12px; margin: 2px 0; font-family: Arial, sans-serif;\">\<newline>'',
         js ''  <div style=\"font-size: 11px; color: #555; margin-bottom: 4px;\">\<newline>'',
         js ''    '', (if direction_m m = Sent then [287, 376, 8221, 181] else [287, 376, 376, 162]),
         js '' <b>'', (if direction_m m = Sent then js ''Sent'' else js ''Received''),
         js ''</b> &nbsp;|&nbsp; <b>['',
         time_m m, js '' &nbsp; '', date_m m, js '']</b>\<newline>'',
         js ''  </div>\<newline>'',
         js ''  <div style=\"font-size: 13px; color: #222;\">'']"
  define mid where "mid = pre @ js ''\<newline>    '' @ text_m m @ js ''\<newline>  </div>'' @ js ''\<newline></div''"
  have "formatNoteHtml m = trim (10 # 60 # mid @ [62])"
    by (simp add: formatNoteHtml_def Let_def mid_def pre_def js_def)
  also have "\<dots> = trim (60 # mid @ [62])"
    by (simp add: trim_def isWhiteSpace_def)
  also have "\<dots> = 60 # mid @ [62]"
    by (rule trim_framed) (simp_all add: isWhiteSpace_def)
  finally have "formatNoteHtml m =
      (60 # pre) @ js ''\<newline>    '' @ text_m m @ js ''\<newline>  </div>'' @ (js ''\<newline></div'' @ [62])"
    by (simp add: mid_def)
  then show ?thesis by blast
qed

section \<open>What the gateway helpers and the loops of main do\<close>

lemma logged_simps [simp]:
  "persons_s (logged rs s) = persons_s s"
  "deals_s (logged rs s) = deals_s s"
  "notes_s (logged rs s) = notes_s s"
  "dealFields_s (logged rs s) = dealFields_s s"
  "nextId_s (logged rs s) = nextId_s s"
  "hit_s (logged rs s) = hit_s s"
  "rejects_s (logged rs s) = rejects_s s"
  "requests_s (logged rs s) = requests_s s @ rs"
  by (simp_all add: logged_def)

lemma logged_logged [simp]: "logged rs (logged qs s) = logged (qs @ rs) s"
  by (simp add: logged_def)

lemma logged_Nil [simp]: "logged [] s = s"
  by (simp add: logged_def)

lemma posted_simps [simp]:
  "persons_s (posted d cs s) = persons_s s"
  "deals_s (posted d cs s) = deals_s s"
  "notes_s (posted d cs s) = notes_s s @ notesFrom d (nextId_s s) cs"
  "dealFields_s (posted d cs s) = dealFields_s s"
  "nextId_s (posted d cs s) = nextId_s s + length cs"
  "hit_s (posted d cs s) = hit_s s"
  "rejects_s (posted d cs s) = rejects_s s"
  "requests_s (posted d cs s) = requests_s s @ map (PostNotes d) cs"
  by (simp_all add: posted_def)

lemma posted_Nil [simp]: "posted d [] s = s"
  by (simp add: posted_def)

lemma notesFrom_append:
  "notesFrom d i (as @ bs) = notesFrom d i as @ notesFrom d (i + length as) bs"
  by (induction as arbitrary: i) auto

lemma posted_append: "posted d bs (posted d as s) = posted d (as @ bs) s"
  by (simp add: posted_def notesFrom_append)

lemma getDealFieldKeys_ok:
  assumes "getDealFieldKeys s = (Inr ks, s')"
  shows "ks = (map_of (rev (dealFields_s s)) SOURCE_CHANNEL_FIELD_ID,
               map_of (rev (dealFields_s s)) SOURCE_COMPANY_FIELD_ID)
         \<and> s' = logged [GetDealFields] s"
  using assms
  by (auto simp: getDealFieldKeys_def pdFetch_def Let_def logged_def split: if_splits)

lemma findPersonByFirstName_ok:
  assumes "findPersonByFirstName lc firstName s = (Inr found, s')"
  shows "found = List.find
            (\<lambda>i. lc (hd (split_js 32 (case name_p i of None \<Rightarrow> [] | Some n \<Rightarrow> n))) = lc firstName)
            (filter (hit_s s firstName) (persons_s s))
         \<and> s' = logged [GetPersonsSearch firstName] s"
  using assms
  by (auto simp: findPersonByFirstName_def pdFetch_def Let_def logged_def split: if_splits)

lemma getDealsForPerson_ok:
  assumes "getDealsForPerson personId s = (Inr ds, s')"
  shows "ds = filter (\<lambda>d. personOf d = Some (Num personId) \<and> \<not> deleted_d d) (deals_s s)
         \<and> s' = logged [GetPersonDeals personId] s"
  using assms
  by (auto simp: getDealsForPerson_def pdFetch_def Let_def logged_def split: if_splits)

lemma getNotesForDeal_ok:
  assumes "getNotesForDeal dealId s = (Inr ns, s')"
  shows "ns = notesOf s dealId \<and> s' = logged [GetNotes dealId] s"
  using assms
  by (auto simp: getNotesForDeal_def pdFetch_def Let_def logged_def notesOf_def split: if_splits)

lemma addNote_ok:
  assumes "addNote dealId c s = (Inr i, s')"
  shows "i = nextId_s s \<and> s' = posted dealId [c] s"
  using assms
  by (auto simp: addNote_def pdFetch_def Let_def posted_def split: if_splits)

lemma createLoop_ok:
  "createLoop dealId messages n s = (Inr k, s') \<Longrightarrow>
     k = n + length messages \<and> s' = posted dealId (map formatNoteHtml messages) s"
proof (induction messages arbitrary: n s)
  case Nil
  then show ?case by simp
next
  case (Cons m ms)
  from Cons.prems obtain i s1 where
    a: "addNote dealId (formatNoteHtml m) s = (Inr i, s1)" and
    r: "createLoop dealId ms (Suc n) s1 = (Inr k, s')"
    by (auto split: prod.splits sum.splits)
  from a have s1: "s1 = posted dealId [formatNoteHtml m] s" by (simp add: addNote_ok)
  from Cons.IH [OF r] show ?case by (simp add: s1 posted_append)
qed

lemma syncLoop_ok:
  "syncLoop dealId existingNotes messages n s = (Inr k, s') \<Longrightarrow>
     k = n + length (missing existingNotes messages)
     \<and> s' = posted dealId (map formatNoteHtml (missing existingNotes messages)) s"
proof (induction messages arbitrary: n s)
  case Nil
  then show ?case by (simp add: missing_def)
next
  case (Cons m ms)
  show ?case
  proof (cases "someIncludes existingNotes (text_m m)")
    case True
    with Cons.prems have "syncLoop dealId existingNotes ms n s = (Inr k, s')" by simp
    from Cons.IH [OF this] True show ?thesis by (simp add: missing_def)
  next
    case False
    with Cons.prems obtain i s1 where
      a: "addNote dealId (formatNoteHtml m) s = (Inr i, s1)" and
      r: "syncLoop dealId existingNotes ms (Suc n) s1 = (Inr k, s')"
      by (auto split: prod.splits sum.splits)
    from a have s1: "s1 = posted dealId [formatNoteHtml m] s" by (simp add: addNote_ok)
    from Cons.IH [OF r] False show ?thesis by (simp add: s1 posted_append missing_def)
  qed
qed

lemma notesOf_logged [simp]: "notesOf (logged rs s) d = notesOf s d"
  by (simp add: notesOf_def)

lemma owns_logged [simp]: "owns (logged rs s) fm = owns s fm"
  by (simp add: owns_def fun_eq_iff)

lemma dealLoop_ok:
  "dealLoop fm msgs ds s = (Inr r, s') \<Longrightarrow>
     (case List.find (owns s fm) ds of
        None \<Rightarrow> r = None \<and> s' = logged (map (\<lambda>d. GetNotes (id_d d)) ds) s
      | Some d \<Rightarrow>
          r = Some (id_d d, length (missing (notesOf s (id_d d)) msgs))
          \<and> s' = posted (id_d d) (map formatNoteHtml (missing (notesOf s (id_d d)) msgs))
                   (logged (map (\<lambda>d. GetNotes (id_d d)) (takeWhile (\<lambda>d. \<not> owns s fm d) ds)
                            @ [GetNotes (id_d d)]) s))"
proof (induction ds arbitrary: s)
  case Nil
  then show ?case by simp
next
  case (Cons d ds)
  from Cons.prems obtain ns s1 where
    g: "getNotesForDeal (id_d d) s = (Inr ns, s1)"
    by (auto split: prod.splits sum.splits)
  then have ns: "ns = notesOf s (id_d d)" and s1: "s1 = logged [GetNotes (id_d d)] s"
    by (simp_all add: getNotesForDeal_ok)
  show ?case
  proof (cases "owns s fm d")
    case True
    then have "someIncludes ns (text_m fm)" by (simp add: owns_def ns)
    with Cons.prems g obtain k where
      sl: "syncLoop (id_d d) ns msgs 0 s1 = (Inr k, s')" and r: "r = Some (id_d d, k)"
      by (auto simp: Let_def split: prod.splits sum.splits)
    from syncLoop_ok [OF sl] True r show ?thesis by (simp add: ns s1)
  next
    case False
    then have "\<not> someIncludes ns (text_m fm)" by (simp add: owns_def ns)
    with Cons.prems g have "dealLoop fm msgs ds s1 = (Inr r, s')"
      by (simp add: Let_def)
    from Cons.IH [OF this] False show ?thesis
      by (simp add: s1 split: option.splits)
  qed
qed

lemma createNew_ok:
  assumes "createNew env fm msgs ck cok ep s = (Inr r, s')"
  defines "s0 \<equiv> (case ep of Some p \<Rightarrow> s
                   | None \<Rightarrow> withPerson (contactPersonName env) DEAL_OWNER_USER_ID s)"
      and "pid \<equiv> (case ep of Some p \<Rightarrow> id_p p | None \<Rightarrow> nextId_s s)"
  shows "r = \<lparr>personId_r = pid, dealId_r = nextId_s s0, notesAdded_r = length msgs,
              resultAction_r = created_new_deal\<rparr>
         \<and> s' = posted (nextId_s s0) (noteLink env # map formatNoteHtml msgs)
                  (withDeal (dealBody env fm pid ck cok) s0)"
proof -
  have p: "(case ep of
              Some p \<Rightarrow> (Inr (id_p p), s)
            | None \<Rightarrow>
                (case pdFetch (PostPersons (contactPersonName env) DEAL_OWNER_USER_ID) s of
                   (Inl e, s') \<Rightarrow> (Inl e, s')
                 | (Inr created, s') \<Rightarrow>
                     (case created of IdData i \<Rightarrow> (Inr i, s') | _ \<Rightarrow> (Inl TypeError, s'))))
           = (Inr pid, s0)"
    using assms(1)
    by (cases ep)
       (auto simp: createNew_def pdFetch_def withPerson_def s0_def pid_def Let_def
             split: prod.splits sum.splits if_splits response.splits)
  with assms(1) obtain did s2 where
    d: "pdFetch (PostDeals (dealBody env fm pid ck cok)) s0 = (Inr (IdData did), s2)"
    by (auto simp: createNew_def split: prod.splits sum.splits response.splits)
  then have did: "did = nextId_s s0"
    and s2: "s2 = withDeal (dealBody env fm pid ck cok) s0"
    by (auto simp: pdFetch_def withDeal_def Let_def split: if_splits)
  from assms(1) p d obtain i s3 k where
    a: "addNote did (noteLink env) s2 = (Inr i, s3)" and
    c: "createLoop did msgs 0 s3 = (Inr k, s')" and
    r: "r = \<lparr>personId_r = pid, dealId_r = did, notesAdded_r = k, resultAction_r = created_new_deal\<rparr>"
    by (auto simp: createNew_def split: prod.splits sum.splits)
  from a have s3: "s3 = posted did [noteLink env] s2" by (simp add: addNote_ok)
  from createLoop_ok [OF c] have "k = length msgs"
    and "s' = posted did (noteLink env # map formatNoteHtml msgs) s2"
    by (simp_all add: s3 posted_append)
  then show ?thesis using r by (simp add: did s2 withDeal_def)
qed

lemma dealsOf_logged [simp]: "dealsOf (logged rs s) i = dealsOf s i"
  by (simp add: dealsOf_def)

lemma matchPerson_logged [simp]: "matchPerson lc fn (logged rs s) = matchPerson lc fn s"
  by (simp add: matchPerson_def)

lemma fieldKey_logged [simp]: "fieldKey (logged rs s) i = fieldKey s i"
  by (simp add: fieldKey_def)

lemma duplicateCheck_ok:
  assumes "duplicateCheck lc env fm msgs s = (Inr (ep, found), s')"
  defines "fn \<equiv> contactPersonFirstName env"
  shows "ep = matchPerson lc fn s \<and>
         (case ep of
            None \<Rightarrow> found = None \<and> s' = logged [GetPersonsSearch fn] s
          | Some p \<Rightarrow>
             (case List.find (owns s fm) (dealsOf s (id_p p)) of
                None \<Rightarrow> found = None
                  \<and> s' = logged ([GetPersonsSearch fn, GetPersonDeals (id_p p)]
                                  @ map (\<lambda>d. GetNotes (id_d d)) (dealsOf s (id_p p))) s
              | Some d \<Rightarrow>
                  found = Some (id_d d, length (missing (notesOf s (id_d d)) msgs))
                  \<and> s' = posted (id_d d) (map formatNoteHtml (missing (notesOf s (id_d d)) msgs))
                     (logged ([GetPersonsSearch fn, GetPersonDeals (id_p p)]
                        @ map (\<lambda>d. GetNotes (id_d d))
                            (takeWhile (\<lambda>d. \<not> owns s fm d) (dealsOf s (id_p p)))
                        @ [GetNotes (id_d d)]) s)))"
proof -
  from assms(1) obtain ep0 s1 where
    f: "findPersonByFirstName lc fn s = (Inr ep0, s1)"
    by (auto simp: duplicateCheck_def fn_def split: prod.splits sum.splits)
  then have ep0: "ep0 = matchPerson lc fn s" and s1: "s1 = logged [GetPersonsSearch fn] s"
    by (simp_all add: findPersonByFirstName_ok matchPerson_def)
  show ?thesis
  proof (cases ep0)
    case None
    with assms(1) f show ?thesis
      by (auto simp: duplicateCheck_def fn_def ep0 s1)
  next
    case (Some p)
    with assms(1) f obtain ds s2 where
      g: "getDealsForPerson (id_p p) s1 = (Inr ds, s2)" and
      l: "dealLoop fm msgs ds s2 = (Inr found, s')" and ep: "ep = Some p"
      by (auto simp: duplicateCheck_def fn_def split: prod.splits sum.splits)
    from getDealsForPerson_ok [OF g]
    have ds: "ds = dealsOf s (id_p p)" and s2: "s2 = logged [GetPersonsSearch fn, GetPersonDeals (id_p p)] s"
      by (simp_all add: dealsOf_def s1)
    from dealLoop_ok [OF l] show ?thesis
      using Some ep ep0 by (simp add: ds s2 split: option.splits)
  qed
qed

lemma reconcile_cases:
  assumes "reconcile lc env msgs s = (Inr r, s')"
  obtains
    (synced) fm rest p d where
      "msgs = fm # rest"
      "matchPerson lc (contactPersonFirstName env) s = Some p"
      "List.find (owns s fm) (dealsOf s (id_p p)) = Some d"
      "r = \<lparr>personId_r = id_p p, dealId_r = id_d d,
             notesAdded_r = length (missing (notesOf s (id_d d)) msgs),
             resultAction_r = synced_notes_to_existing_deal\<rparr>"
      "s' = posted (id_d d) (map formatNoteHtml (missing (notesOf s (id_d d)) msgs))
              (logged ([GetDealFields, GetPersonsSearch (contactPersonFirstName env),
                        GetPersonDeals (id_p p)]
                 @ map (\<lambda>d. GetNotes (id_d d))
                     (takeWhile (\<lambda>d. \<not> owns s fm d) (dealsOf s (id_p p)))
                 @ [GetNotes (id_d d)]) s)"
  | (created) fm rest ck cok where
      "msgs = fm # rest"
      "fieldKey s SOURCE_CHANNEL_FIELD_ID = Some ck"
      "fieldKey s SOURCE_COMPANY_FIELD_ID = Some cok"
      "case matchPerson lc (contactPersonFirstName env) s of
         None \<Rightarrow> True
       | Some p \<Rightarrow> List.find (owns s fm) (dealsOf s (id_p p)) = None"
      "createNew env fm msgs ck cok (matchPerson lc (contactPersonFirstName env) s)
         (logged ([GetDealFields, GetPersonsSearch (contactPersonFirstName env)]
            @ (case matchPerson lc (contactPersonFirstName env) s of
                 None \<Rightarrow> []
               | Some p \<Rightarrow> GetPersonDeals (id_p p)
                           # map (\<lambda>d. GetNotes (id_d d)) (dealsOf s (id_p p)))) s)
       = (Inr r, s')"
proof -
  let ?fn = "contactPersonFirstName env"
  from assms obtain fm rest where msgs: "msgs = fm # rest"
    by (cases msgs) (auto simp: reconcile_def)
  from assms msgs obtain ks s1 where k: "getDealFieldKeys s = (Inr ks, s1)"
    by (auto simp: reconcile_def split: prod.splits sum.splits)
  then have ks: "ks = (fieldKey s SOURCE_CHANNEL_FIELD_ID, fieldKey s SOURCE_COMPANY_FIELD_ID)"
    and s1: "s1 = logged [GetDealFields] s"
    by (simp_all add: getDealFieldKeys_ok fieldKey_def)
  from assms msgs k ks obtain ck cok where
    ck: "fieldKey s SOURCE_CHANNEL_FIELD_ID = Some ck" and
    cok: "fieldKey s SOURCE_COMPANY_FIELD_ID = Some cok" and ne: "ck \<noteq> []" "cok \<noteq> []"
    by (auto simp: reconcile_def split: option.splits if_splits)
  from assms msgs k ks ck cok ne obtain ep found s2 where
    dc: "duplicateCheck lc env fm msgs s1 = (Inr (ep, found), s2)"
    by (auto simp: reconcile_def split: prod.splits sum.splits)
  note ok = duplicateCheck_ok [OF dc]
  have ep: "ep = matchPerson lc ?fn s" using ok by (simp add: s1 matchPerson_def)
  have dealsOf1: "\<And>i. dealsOf s1 i = dealsOf s i" by (simp add: s1)
  show thesis
  proof (cases found)
    case None
    have cn: "createNew env fm msgs ck cok ep s2 = (Inr r, s')"
      using assms msgs k ks ck cok ne dc None
      by (cases ep) (auto simp: reconcile_def)
    show thesis
    proof (rule created [OF msgs ck cok])
      show "case matchPerson lc ?fn s of None \<Rightarrow> True
            | Some p \<Rightarrow> List.find (owns s fm) (dealsOf s (id_p p)) = None"
        using ok None ep by (auto simp: s1 dealsOf1 split: option.splits)
      show "createNew env fm msgs ck cok (matchPerson lc ?fn s)
         (logged ([GetDealFields, GetPersonsSearch ?fn]
            @ (case matchPerson lc ?fn s of
                 None \<Rightarrow> []
               | Some p \<Rightarrow> GetPersonDeals (id_p p)
                           # map (\<lambda>d. GetNotes (id_d d)) (dealsOf s (id_p p)))) s)
       = (Inr r, s')"
        using ok None ep cn by (auto simp: s1 dealsOf1 split: option.splits)
    qed
  next
    case (Some dn)
    have "ep \<noteq> None"
    proof
      assume "ep = None"
      with ok have "found = None" by simp
      with Some show False by simp
    qed
    then obtain p where p: "ep = Some p" by auto
    obtain d where d: "List.find (owns s fm) (dealsOf s (id_p p)) = Some d"
      using ok Some p by (auto simp: s1 dealsOf1 split: option.splits)
    have r: "r = \<lparr>personId_r = id_p p, dealId_r = fst dn, notesAdded_r = snd dn,
             resultAction_r = synced_notes_to_existing_deal\<rparr>" and s': "s' = s2"
      using assms msgs k ks ck cok ne dc Some p
      by (cases dn; auto simp: reconcile_def)+
    show thesis
    proof (rule synced [OF msgs _ d])
      show "matchPerson lc ?fn s = Some p" using ep p by simp
      show "r = \<lparr>personId_r = id_p p, dealId_r = id_d d,
             notesAdded_r = length (missing (notesOf s (id_d d)) msgs),
             resultAction_r = synced_notes_to_existing_deal\<rparr>"
        using ok Some p d r by (auto simp: s1 dealsOf1)
      show "s' = posted (id_d d) (map formatNoteHtml (missing (notesOf s (id_d d)) msgs))
              (logged ([GetDealFields, GetPersonsSearch ?fn, GetPersonDeals (id_p p)]
                 @ map (\<lambda>d. GetNotes (id_d d))
                     (takeWhile (\<lambda>d. \<not> owns s fm d) (dealsOf s (id_p p)))
                 @ [GetNotes (id_d d)]) s)"
        using ok Some p d s' by (auto simp: s1 dealsOf1)
    qed
  qed
qed

section \<open>The second run on the store the first run left\<close>

lemma withPerson_simps [simp]:
  "persons_s (withPerson n u s) = persons_s s @ [\<lparr>id_p = nextId_s s, name_p = Some n\<rparr>]"
  "deals_s (withPerson n u s) = deals_s s"
  "notes_s (withPerson n u s) = notes_s s"
  "dealFields_s (withPerson n u s) = dealFields_s s"
  "nextId_s (withPerson n u s) = Suc (nextId_s s)"
  "hit_s (withPerson n u s) = hit_s s"
  "rejects_s (withPerson n u s) = rejects_s s"
  "requests_s (withPerson n u s) = requests_s s @ [PostPersons n u]"
  by (simp_all add: withPerson_def)

lemma withDeal_simps [simp]:
  "persons_s (withDeal b s) = persons_s s"
  "deals_s (withDeal b s) = deals_s s @ [\<lparr>id_d = nextId_s s, fields_d = b, deleted_d = False\<rparr>]"
  "notes_s (withDeal b s) = notes_s s"
  "dealFields_s (withDeal b s) = dealFields_s s"
  "nextId_s (withDeal b s) = Suc (nextId_s s)"
  "hit_s (withDeal b s) = hit_s s"
  "rejects_s (withDeal b s) = rejects_s s"
  "requests_s (withDeal b s) = requests_s s @ [PostDeals b]"
  by (simp_all add: withDeal_def)


lemma dealBody_person:
  "dealBody env fm pid ck cok (js ''person_id'') =
     Some (if cok = js ''person_id'' then Num (sourceCompanyOptionId (cfg env))
           else if ck = js ''person_id'' then Num (sourceChannelOptionId (cfg env))
           else Num pid)"
  by (simp add: dealBody_def)

lemma notesFrom_deal_ids: "map deal_id_n (notesFrom d i cs) = replicate (length cs) d"
  by (induction cs arbitrary: i) auto

lemma notesFrom_contents: "map content_n (notesFrom d i cs) = map Some cs"
  by (induction cs arbitrary: i) auto

lemma notesFetched_append: "notesFetched (as @ bs) = notesFetched as @ notesFetched bs"
  by (induction as rule: notesFetched.induct) auto

lemma notesFetched_GetNotes: "notesFetched (map (\<lambda>d. GetNotes (f d)) ds) = map f ds"
  by (induction ds) auto

lemma notesFetched_PostNotes: "notesFetched (map (PostNotes d) cs) = []"
  by (induction cs) auto

lemma notesFetched_PostNotes_comp: "notesFetched (map (PostNotes d \<circ> f) xs) = []"
  by (induction xs) auto

lemma includes_formatNoteHtml: "includes_js (formatNoteHtml m) (text_m m)"
proof -
  obtain a b where
    "formatNoteHtml m = a @ js ''\<newline>    '' @ text_m m @ js ''\<newline>  </div>'' @ b"
    using formatNoteHtml_framed by blast
  then have "formatNoteHtml m = (a @ js ''\<newline>    '') @ text_m m @ (js ''\<newline>  </div>'' @ b)"
    by simp
  then show ?thesis unfolding includes_js_iff by blast
qed

lemma someIncludes_append:
  "someIncludes (as @ bs) t \<longleftrightarrow> someIncludes as t \<or> someIncludes bs t"
  by (simp add: someIncludes_def)

lemma someIncludes_notesFrom:
  "someIncludes (notesFrom d i cs) t \<longleftrightarrow> (\<exists>c\<in>set cs. includes_js c t)"
  by (induction cs arbitrary: i) (auto simp: someIncludes_def)

lemma filter_notesFrom:
  "filter (\<lambda>n. deal_id_n n = d') (notesFrom d i cs) = (if d' = d then notesFrom d i cs else [])"
  by (induction cs arbitrary: i) auto

lemma notesOf_posted:
  "notesOf (posted d cs s) d' = notesOf s d' @ (if d' = d then notesFrom d (nextId_s s) cs else [])"
  by (simp add: notesOf_def filter_notesFrom)

lemma notesOf_withDeal [simp]: "notesOf (withDeal b s) d = notesOf s d"
  by (simp add: notesOf_def)

lemma notesOf_withPerson [simp]: "notesOf (withPerson n u s) d = notesOf s d"
  by (simp add: notesOf_def)

lemma dealsOf_posted [simp]: "dealsOf (posted d cs s) i = dealsOf s i"
  by (simp add: dealsOf_def)

lemma dealsOf_withPerson [simp]: "dealsOf (withPerson n u s) i = dealsOf s i"
  by (simp add: dealsOf_def)

lemma dealsOf_withDeal:
  "dealsOf (withDeal b s) i =
     dealsOf s i @ (if b (js ''person_id'') = Some (Num i)
                    then [\<lparr>id_d = nextId_s s, fields_d = b, deleted_d = False\<rparr>] else [])"
  by (simp add: dealsOf_def personOf_def)

lemma matchPerson_posted [simp]: "matchPerson lc fn (posted d cs s) = matchPerson lc fn s"
  by (simp add: matchPerson_def)

lemma matchPerson_withDeal [simp]: "matchPerson lc fn (withDeal b s) = matchPerson lc fn s"
  by (simp add: matchPerson_def)

lemma missing_Nil_iff:
  "missing ns msgs = [] \<longleftrightarrow> (\<forall>m\<in>set msgs. someIncludes ns (text_m m))"
  by (auto simp: missing_def filter_empty_conv)

lemma all_held_after_sync:
  assumes "m \<in> set msgs"
  shows "someIncludes (ns @ notesFrom d i (map formatNoteHtml (missing ns msgs))) (text_m m)"
proof (cases "someIncludes ns (text_m m)")
  case True
  then show ?thesis by (simp add: someIncludes_append)
next
  case False
  with assms have "m \<in> set (missing ns msgs)" by (simp add: missing_def)
  then have "\<exists>c\<in>set (map formatNoteHtml (missing ns msgs)). includes_js c (text_m m)"
    using includes_formatNoteHtml by auto
  then show ?thesis by (simp add: someIncludes_append someIncludes_notesFrom)
qed

lemma all_held_after_create:
  assumes "m \<in> set msgs"
  shows "someIncludes (ns @ notesFrom d i (link # map formatNoteHtml msgs)) (text_m m)"
proof -
  from assms have "\<exists>c\<in>set (link # map formatNoteHtml msgs). includes_js c (text_m m)"
    using includes_formatNoteHtml by auto
  then show ?thesis unfolding someIncludes_append someIncludes_notesFrom by blast
qed

lemma find_append:
  "List.find P (xs @ ys) = (case List.find P xs of None \<Rightarrow> List.find P ys | Some x \<Rightarrow> Some x)"
  by (induction xs) auto

lemma find_SomeD: "List.find P xs = Some x \<Longrightarrow> x \<in> set xs \<and> P x"
  by (induction xs) (auto split: if_splits)

lemma second_run_after_sync:
  fixes rs :: "request list" and msgs :: "message list"
  assumes found: "List.find (owns s fm) ds = Some d"
  defines "s1 \<equiv> posted (id_d d) (map formatNoteHtml (missing (notesOf s (id_d d)) msgs)) (logged rs s)"
  shows "List.find (owns s1 fm) ds = Some d"
    and "missing (notesOf s1 (id_d d)) msgs = []"
proof -
  from find_SomeD [OF found] have d: "owns s fm d" by simp
  have "owns s1 fm d' = owns s fm d'" for d'
  proof (cases "id_d d' = id_d d")
    case True
    with d have "owns s fm d'" by (simp add: owns_def)
    moreover have "owns s1 fm d'"
      using \<open>owns s fm d'\<close> by (simp add: owns_def s1_def notesOf_posted someIncludes_append)
    ultimately show ?thesis by simp
  next
    case False
    then show ?thesis by (simp add: owns_def s1_def notesOf_posted)
  qed
  then have "owns s1 fm = owns s fm" by (simp add: fun_eq_iff)
  with found show "List.find (owns s1 fm) ds = Some d" by simp
  show "missing (notesOf s1 (id_d d)) msgs = []"
    unfolding missing_Nil_iff
    by (simp add: s1_def notesOf_posted all_held_after_sync)
qed

lemma second_run_after_create:
  fixes link :: jsstring and body :: jsobject
  assumes none: "\<forall>d\<in>set (dealsOf s0 pid). \<not> owns s0 fm d"
    and fm: "fm \<in> set msgs"
    and person: "body (js ''person_id'') = Some (Num pid)"
  defines "s1 \<equiv> posted (nextId_s s0) (link # map formatNoteHtml msgs) (withDeal body s0)"
  shows "List.find (owns s1 fm) (dealsOf s1 pid) \<noteq> None"
    and "List.find (owns s1 fm) (dealsOf s1 pid) = Some d2 \<Longrightarrow> id_d d2 = nextId_s s0"
    and "missing (notesOf s1 (nextId_s s0)) msgs = []"
proof -
  let ?new = "\<lparr>id_d = nextId_s s0, fields_d = body, deleted_d = False\<rparr>"
  have deals: "dealsOf s1 pid = dealsOf s0 pid @ [?new]"
    by (simp add: s1_def dealsOf_withDeal person)
  have n1: "notesOf s1 (nextId_s s0) =
      notesOf s0 (nextId_s s0)
      @ notesFrom (nextId_s s0) (nextId_s (withDeal body s0)) (link # map formatNoteHtml msgs)"
    by (simp add: s1_def notesOf_posted del: notesFrom.simps)
  have held: "someIncludes (notesOf s1 (nextId_s s0)) (text_m m)" if "m \<in> set msgs" for m
    unfolding n1 using that by (rule all_held_after_create)
  then have "owns s1 fm ?new" using fm by (simp add: owns_def)
  moreover have "?new \<in> set (dealsOf s1 pid)" unfolding deals by simp
  ultimately show "List.find (owns s1 fm) (dealsOf s1 pid) \<noteq> None"
    unfolding find_None_iff by blast
  show "missing (notesOf s1 (nextId_s s0)) msgs = []"
    unfolding missing_Nil_iff using held by blast
  show "id_d d2 = nextId_s s0" if "List.find (owns s1 fm) (dealsOf s1 pid) = Some d2"
  proof (rule ccontr)
    assume ne: "id_d d2 \<noteq> nextId_s s0"
    from find_SomeD [OF that] have mem: "d2 \<in> set (dealsOf s1 pid)" and o: "owns s1 fm d2"
      by simp_all
    from mem have "d2 \<in> set (dealsOf s0 pid) \<or> d2 = ?new" unfolding deals by auto
    moreover have "id_d ?new = nextId_s s0" by simp
    ultimately have old: "d2 \<in> set (dealsOf s0 pid)" using ne by metis
    have "notesOf s1 (id_d d2) = notesOf s0 (id_d d2)"
      using ne by (simp add: s1_def notesOf_posted del: notesFrom.simps)
    with o have "owns s0 fm d2" by (simp add: owns_def)
    with none old show False by blast
  qed
qed

lemma owns_withPerson [simp]: "owns (withPerson n u s) fm = owns s fm"
  by (simp add: owns_def fun_eq_iff)

lemma matchPerson_withPerson:
  assumes "matchPerson lc fn s = None"
    and "matchPerson lc fn (withPerson n u s) = Some p"
  shows "p = \<lparr>id_p = nextId_s s, name_p = Some n\<rparr>"
  using assms by (auto simp: matchPerson_def find_append split: if_splits)

lemma someIncludesD:
  "someIncludes ns t \<Longrightarrow>
     \<exists>n\<in>set ns. \<exists>a b. (case content_n n of None \<Rightarrow> [] | Some c \<Rightarrow> c) = a @ t @ b"
  by (auto simp: someIncludes_def list_ex_iff includes_js_iff)

lemma freshIds_no_deals: "freshIds s \<Longrightarrow> dealsOf s (nextId_s s) = []"
  by (fastforce simp: freshIds_def dealsOf_def list_all_iff filter_empty_conv)

section \<open>The global expressions consume input\<close>

text \<open>
  A match of one of the three global expressions is never empty: the rest it leaves is
  shorter than the string it started from. So the loop over \<open>exec\<close> moves on after
  every match, as \<open>execAll\<close> does.
\<close>

lemma stripPrefix_length:
  "stripPrefix p s = Some r \<Longrightarrow> length r + length p = length s"
  by (auto simp: stripPrefix_def startsWith_iff split: if_splits)

lemma dropWhile_Cons_length: "dropWhile P xs = y # ys \<Longrightarrow> length ys < length xs"
proof -
  assume a: "dropWhile P xs = y # ys"
  have "length (dropWhile P xs) \<le> length xs" by (rule length_dropWhile_le)
  with a show ?thesis by simp
qed

lemma lazyBody_suffix:
  "lazyBody restAt s = Some (body, x) \<Longrightarrow> \<exists>u. restAt u = Some x \<and> length u \<le> length s"
proof (induction s arbitrary: body)
  case Nil
  then show ?case by (auto split: option.splits)
next
  case (Cons c cs)
  show ?case
  proof (cases "restAt (c # cs)")
    case None
    with Cons.prems obtain b where "lazyBody restAt cs = Some (b, x)"
      by (auto split: option.splits)
    from Cons.IH [OF this] show ?thesis by auto
  next
    case (Some a)
    with Cons.prems show ?thesis by auto
  qed
qed

lemma dateRegexAt_shorter:
  assumes "dateRegexAt s = Some (rest, groups)"
  shows "length rest < length s"
proof -
  from assms obtain r gt r1 where
    a: "stripPrefix dateOpen s = Some r" and b: "dropWhile (\<lambda>c. c \<noteq> 62) r = gt # r1"
    and c: "stripPrefix divClose (dropWhile (\<lambda>c. c \<noteq> 60) r1) = Some rest"
    by (auto simp: dateRegexAt_def Let_def split: option.splits list.splits if_splits)
  have "length (dropWhile (\<lambda>c. c \<noteq> 60) r1) \<le> length r1" by (rule length_dropWhile_le)
  with stripPrefix_length [OF a] stripPrefix_length [OF c] dropWhile_Cons_length [OF b]
  show ?thesis by simp
qed

lemma scriptRegexAt_shorter:
  assumes "scriptRegexAt s = Some (rest, groups)"
  shows "length rest < length s"
proof -
  from assms obtain r r1 r2 where
    a: "stripPrefix scriptOpen s = Some r"
    and b: "stripPrefix quoteComma (dropWhile (\<lambda>c. c \<noteq> 34) r) = Some r1"
    and c: "stripPrefix mailContent (dropWhile isWhiteSpace r1) = Some r2"
    and d: "stripPrefix scriptClose (dropWhile isDigit r2) = Some rest"
    by (auto simp: scriptRegexAt_def split: option.splits if_splits)
  have "length (dropWhile (\<lambda>c. c \<noteq> 34) r) \<le> length r"
    "length (dropWhile isWhiteSpace r1) \<le> length r1"
    "length (dropWhile isDigit r2) \<le> length r2"
    by (rule length_dropWhile_le)+
  with stripPrefix_length [OF a] stripPrefix_length [OF b] stripPrefix_length [OF c]
    stripPrefix_length [OF d]
  show ?thesis by (simp add: scriptOpen_def js_def)
qed

lemma optQuote_length: "length (optQuote r) \<le> length r"
  by (simp add: optQuote_def split: list.splits)

lemma timeCellAt_shorter:
  assumes "timeCellAt u = Some (rest, t)"
  shows "length rest < length u"
proof -
  from assms obtain r r1 gt r2 where
    a: "stripPrefix tdOpen u = Some r"
    and b: "stripPrefix td15 (optQuote r) = Some r1"
    and c: "dropWhile (\<lambda>c. c \<noteq> 62) (optQuote r1) = gt # r2"
    and d: "stripPrefix tdClose (dropWhile (\<lambda>c. c \<noteq> 60) r2) = Some rest"
    by (auto simp: timeCellAt_def split: option.splits list.splits if_splits)
  have "length (dropWhile (\<lambda>c. c \<noteq> 60) r2) \<le> length r2" by (rule length_dropWhile_le)
  with stripPrefix_length [OF a] stripPrefix_length [OF b] stripPrefix_length [OF d]
    dropWhile_Cons_length [OF c] optQuote_length [of r] optQuote_length [of r1]
  show ?thesis by simp
qed

lemma messageRegexAt_shorter:
  assumes "messageRegexAt s = Some (rest, groups)"
  shows "length rest < length s"
proof -
  from assms obtain r r1 r2 gt r3 mb t where
    a: "stripPrefix anchorOpen s = Some r"
    and b: "stripPrefix anchorClose (dropWhile isDigit r) = Some r1"
    and c: "stripPrefix divOpen (dropWhile isWhiteSpace r1) = Some r2"
    and d: "dropWhile (\<lambda>c. c \<noteq> 62) r2 = gt # r3"
    and e: "lazyBody timeCellAt r3 = Some (mb, rest, t)"
    by (auto simp: messageRegexAt_def split: option.splits list.splits if_splits)
  from lazyBody_suffix [OF e] obtain u where
    u: "timeCellAt u = Some (rest, t)" "length u \<le> length r3" by blast
  have "length (dropWhile isDigit r) \<le> length r"
    "length (dropWhile isWhiteSpace r1) \<le> length r1"
    by (rule length_dropWhile_le)+
  with stripPrefix_length [OF a] stripPrefix_length [OF b] stripPrefix_length [OF c]
    dropWhile_Cons_length [OF d] timeCellAt_shorter [OF u(1)] u(2)
  show ?thesis by simp
qed

section \<open>The loop over the message blocks\<close>

lemma messageLoop_ids:
  "map id_m (fst (messageLoop cc dm mt bs st)) = filter (hasText mt) (map blockId bs)"
  by (induction bs arbitrary: st)
     (simp_all add: Let_def case_prod_beta hasText_def blockId_def split: option.splits)

lemma messageLoop_skipped:
  "snd (messageLoop cc dm mt bs st) = filter (\<lambda>i. \<not> hasText mt i) (map blockId bs)"
  by (induction bs arbitrary: st)
     (simp_all add: Let_def case_prod_beta hasText_def blockId_def split: option.splits)










lemma fetchAllMessages_Inr:
  assumes "fetchAllMessages fetch cookie url = Inr (messages, skipped)"
  obtains cc where
    "matchFirst chatDivAt (html_h (fetch url cookie)) = Some cc"
    "50 \<le> length cc"
    "messages = sort_key (\<lambda>a. parseInt (id_m a))
        (fst (messageLoop cc (datesOf cc) (textsOf cc) (blocksOf cc) (0, None)))"
    "skipped = snd (messageLoop cc (datesOf cc) (textsOf cc) (blocksOf cc) (0, None))"
  using assms
  by (auto simp: fetchAllMessages_def Let_def case_prod_beta datesOf_def textsOf_def blocksOf_def
           split: if_splits option.splits)

lemma parseInt_exact: "numericValue s < 2 ^ 53 \<Longrightarrow> parseInt s = numericValue s"
  by (simp add: parseInt_def toNumber_def)

text \<open>
  The id of a message block is a run of digits that is not empty, and so is the id of
  every message returned: \<open>parseInt\<close> reads all of it and the result is not \<open>NaN\<close>.
\<close>

lemma execAll_groups:
  "m \<in> set (execAll regexAt skip i s) \<Longrightarrow>
     \<exists>u rest groups. regexAt u = Some (rest, groups) \<and> tl (array_x m) = groups"
proof (induction s arbitrary: skip i)
  case Nil
  then show ?case by simp
next
  case (Cons c cs)
  show ?case
  proof (cases "0 < skip")
    case True
    with Cons.prems have "m \<in> set (execAll regexAt (skip - 1) (Suc i) cs)" by simp
    then show ?thesis by (rule Cons.IH)
  next
    case False
    show ?thesis
    proof (cases "regexAt (c # cs)")
      case None
      with Cons.prems False have "m \<in> set (execAll regexAt 0 (Suc i) cs)" by simp
      then show ?thesis by (rule Cons.IH)
    next
      case (Some a)
      obtain rest groups where a: "a = (rest, groups)" by (cases a)
      let ?len = "length (c # cs) - length rest"
      from Cons.prems False Some a
      have "m = \<lparr>index_x = i, array_x = take ?len (c # cs) # groups\<rparr>
            \<or> m \<in> set (execAll regexAt (?len - 1) (Suc i) cs)"
        by (simp add: Let_def)
      then show ?thesis
      proof
        assume "m = \<lparr>index_x = i, array_x = take ?len (c # cs) # groups\<rparr>"
        then have "tl (array_x m) = groups" by simp
        with Some a show ?thesis by blast
      next
        assume "m \<in> set (execAll regexAt (?len - 1) (Suc i) cs)"
        then show ?thesis by (rule Cons.IH)
      qed
    qed
  qed
qed

lemma messageRegexAt_id:
  assumes "messageRegexAt u = Some (rest, groups)"
  shows "groups ! 0 \<noteq> [] \<and> list_all isDigit (groups ! 0)"
proof -
  from assms obtain r mb t where "groups = [takeWhile isDigit r, mb, t]"
    and "takeWhile isDigit r \<noteq> []"
    by (auto simp: messageRegexAt_def split: option.splits if_splits list.splits)
  then show ?thesis by (simp add: list_all_iff) (meson set_takeWhileD)
qed

lemma blockId_digits:
  assumes "b \<in> set (blocksOf cc)"
  shows "blockId b \<noteq> [] \<and> list_all isDigit (blockId b)"
proof -
  from assms obtain u rest groups where
    m: "messageRegexAt u = Some (rest, groups)" and t: "tl (array_x b) = groups"
    unfolding blocksOf_def using execAll_groups by blast
  from m obtain r mb tm where g: "groups = [takeWhile isDigit r, mb, tm]"
    by (auto simp: messageRegexAt_def split: option.splits if_splits list.splits)
  with t have "array_x b ! 1 = groups ! 0" by (cases "array_x b") auto
  with messageRegexAt_id [OF m] show ?thesis by (simp add: blockId_def)
qed

lemma message_ids_digits:
  assumes "fetchAllMessages fetch cookie url = Inr (messages, skipped)"
    and "m \<in> set messages"
  shows "id_m m \<noteq> [] \<and> list_all isDigit (id_m m)"
  using assms(1)
proof (cases rule: fetchAllMessages_Inr)
  case (1 cc)
  let ?pushed = "fst (messageLoop cc (datesOf cc) (textsOf cc) (blocksOf cc) (0, None))"
  from assms(2) 1(3) have "id_m m \<in> set (map id_m ?pushed)" by simp
  then have "id_m m \<in> blockId ` set (blocksOf cc)"
    unfolding messageLoop_ids by auto
  then obtain b where "b \<in> set (blocksOf cc)" and "id_m m = blockId b" by blast
  then show ?thesis using blockId_digits [of b cc] by simp
qed

lemma distinct_mapD: "distinct (map f ys) \<Longrightarrow> distinct ys"
  by (simp add: distinct_map)

lemma distinct_map_sort_key:
  "distinct (map f (sort_key g xs)) = distinct (map f xs)"
  by (simp add: distinct_map)

section \<open>The first name of the contact\<close>

lemma hd_split_js: "hd (split_js sep s) = takeWhile (\<lambda>c. c \<noteq> sep) s"
  by (induction s) auto

lemma rev_dropWhile_rev_prefix:
  "xs = rev (dropWhile P (rev xs)) @ rev (takeWhile P (rev xs))"
proof -
  have "rev xs = takeWhile P (rev xs) @ dropWhile P (rev xs)" by simp
  then have "rev (rev xs) = rev (takeWhile P (rev xs) @ dropWhile P (rev xs))" by simp
  then show ?thesis by (simp only: rev_rev_ident rev_append)
qed

lemma trim_starts:
  assumes "trim s = c # cs"
  shows "\<not> isWhiteSpace c"
proof -
  let ?d = "dropWhile isWhiteSpace s"
  have "?d = trim s @ rev (takeWhile isWhiteSpace (rev ?d))"
    unfolding trim_def by (rule rev_dropWhile_rev_prefix)
  with assms have d: "?d = c # (cs @ rev (takeWhile isWhiteSpace (rev ?d)))" by simp
  then have "?d \<noteq> []" and "hd ?d = c" by (metis list.distinct(1), metis list.sel(1))
  then show ?thesis using hd_dropWhile by metis
qed

lemma contactPersonName_starts:
  assumes "contactPersonName env = c # cs"
  shows "c \<noteq> 32"
proof -
  from assms have "\<not> isWhiteSpace c" unfolding contactPersonName_def by (rule trim_starts)
  then show ?thesis by (auto simp: isWhiteSpace_def)
qed

lemma contactPersonFirstName_token:
  "contactPersonFirstName env = firstSpaceToken (contactPersonName env)"
proof (cases "contactPersonName env")
  case Nil
  then show ?thesis by (simp add: contactPersonFirstName_def firstSpaceToken_def)
next
  case (Cons c cs)
  then have "c \<noteq> 32" by (rule contactPersonName_starts)
  with Cons show ?thesis
    by (simp add: contactPersonFirstName_def firstSpaceToken_def hd_split_js Let_def)
qed

text \<open>
  The first-name test of \<open>findPersonByFirstName\<close> accepts a person whose name is the
  contact's display name: the contact the program creates.
\<close>

lemma created_contact_passes:
  "lc (hd (split_js 32 (contactPersonName env))) = lc (contactPersonFirstName env)"
  by (simp add: contactPersonFirstName_token hd_split_js firstSpaceToken_def)

lemma matchPerson_created:
  assumes none: "matchPerson lc (contactPersonFirstName env) s = None"
    and hit: "hit_s s (contactPersonFirstName env)
                \<lparr>id_p = nextId_s s, name_p = Some (contactPersonName env)\<rparr>"
  shows "matchPerson lc (contactPersonFirstName env) (withPerson (contactPersonName env) u s)
           = Some \<lparr>id_p = nextId_s s, name_p = Some (contactPersonName env)\<rparr>"
  using none hit by (simp add: matchPerson_def find_append created_contact_passes)

section \<open>The examples, evaluated\<close>

lemma scraper_literals [code]:
  "chatOpen = [60, 100, 105, 118, 32, 105, 100, 61, 34, 99, 104, 97, 116, 95, 100, 118, 34]"
  "divClose = [60, 47, 100, 105, 118, 62]"
  "chatNext = [60, 100, 105, 118, 32, 115, 116, 121, 108, 101, 61, 34, 109, 97, 114, 103, 105, 110, 45, 116, 111, 112, 58, 32, 50, 48, 112, 120, 59, 34, 62]"
  "dateOpen = [60, 100, 105, 118, 32, 99, 108, 97, 115, 115, 61, 34, 116, 100, 49, 53, 34]"
  "scriptOpen = [60, 115, 99, 114, 105, 112, 116, 62, 95, 111, 117, 116, 95, 116, 101, 120, 116, 40, 34]"
  "quoteComma = [34, 44]"
  "mailContent = [34, 109, 97, 105, 108, 95, 99, 111, 110, 116, 101, 110, 116, 95]"
  "scriptClose = [34, 41, 59, 60, 47, 115, 99, 114, 105, 112, 116, 62]"
  "anchorOpen = [60, 97, 32, 110, 97, 109, 101, 61, 34]"
  "anchorClose = [34, 62, 60, 47, 97, 62]"
  "divOpen = [60, 100, 105, 118]"
  "tdOpen = [60, 116, 100, 32, 99, 108, 97, 115, 115, 61]"
  "td15 = [116, 100, 49, 53]"
  "tdClose = [60, 47, 116, 100, 62]"
  "sentColor = [35, 100, 51, 102, 48, 102, 56]"
  "unknownDate = [85, 110, 107, 110, 111, 119, 110, 32, 100, 97, 116, 101]"
  "loginPath = [47, 108, 111, 103, 105, 110, 47]"
  by (simp_all add: js_def chatOpen_def divClose_def chatNext_def dateOpen_def scriptOpen_def quoteComma_def mailContent_def scriptClose_def anchorOpen_def anchorClose_def divOpen_def tdOpen_def td15_def tdClose_def sentColor_def unknownDate_def loginPath_def)

text \<open>
  A parse is evaluated through the case distinction on its result, which compares
  messages and ids only.
\<close>

lemma parsed_eq:
  "(case r of Inl e \<Rightarrow> False | Inr (ms, sk) \<Rightarrow> ms = a \<and> sk = b) \<Longrightarrow> r = Inr (a, b)"
  by (auto split: sum.splits)

lemma chatA_found: "matchFirst chatDivAt (pageOf chatA) = Some chatA"
  by code_simp

lemma chatA_parsed:
  "fetchAllMessages (servePage (pageOf chatA)) cookieString (conversationUrl exampleEnv)
     = Inr ([m3, m5, m9], [])"
  by (rule parsed_eq) code_simp

lemma chatA_blocks: "map blockId (blocksOf chatA) = [js ''5'', js ''3'', js ''9'']"
  by code_simp




lemma chatNone_parsed:
  "fetchAllMessages (servePage (pageOf chatNone)) cookieString (conversationUrl exampleEnv)
     = Inr ([], [])"
  by (rule parsed_eq) code_simp

lemma chatDup_parsed:
  "fetchAllMessages (servePage (pageOf chatDup)) [] [] = Inr ([dup1, dup2], [])"
  by (rule parsed_eq) code_simp

lemma chatRep_parsed:
  "fetchAllMessages (servePage (pageOf chatRep)) [] [] = Inr ([repMessage], [])"
  by (rule parsed_eq) code_simp

lemma chatRep_found: "matchFirst chatDivAt (pageOf chatRep) = Some chatRep"
  by code_simp

lemma chatRep_nearest:
  "map index_x (blocksOf chatRep) = [50] \<and> nearestDate (datesOf chatRep) 50 = Some (js ''B'')"
  by code_simp






lemma chatBig_parsed:
  "fetchAllMessages (servePage (pageOf chatBig)) [] [] = Inr ([big1, big2], [])"
  by (rule parsed_eq) code_simp

lemma chatBig_rounded:
  "map parseInt [js ''9007199254740993'', js ''9007199254740992'']
     = [9007199254740992, 9007199254740992]"
  by code_simp

lemma chatSkip_found: "matchFirst chatDivAt (pageOf chatSkip) = Some chatSkip"
  by code_simp

lemma chatSkip_blocks: "map blockId (blocksOf chatSkip) = [js ''1'', js ''2'', js ''4'']"
  by code_simp

lemma chatSkip_texts:
  "map (hasText (textsOf chatSkip)) [js ''1'', js ''2'', js ''4''] = [False, False, True]"
  by code_simp

lemma chatSkip_length: "50 \<le> length chatSkip"
  by code_simp

lemmas run_defs = reconcile_def getDealFieldKeys_def pdFetch_def findPersonByFirstName_def
  getDealsForPerson_def getNotesForDeal_def addNote_def createNew_def duplicateCheck_def
  someIncludes_def contactPersonFirstName_def contactPersonName_def trim_def isWhiteSpace_def
  dealBody_def personOf_def dealOf_def Let_def
  SOURCE_CHANNEL_FIELD_ID_def SOURCE_COMPANY_FIELD_ID_def DEAL_OWNER_USER_ID_def
  exampleEnv_def emptyStore_def exampleStore_def janis_def janisBerzins_def
  toLowerCaseBasic_def js_def m3_def m5_def m9_def mVai_def

lemma exampleEnv_name: "contactPersonName exampleEnv = janisBerzins"
  by (simp add: contactPersonName_def exampleEnv_def janisBerzins_def trim_def isWhiteSpace_def)

lemma emptyStore_first_run:
  "fst (reconcile toLowerCaseBasic exampleEnv [m3, m5, m9] emptyStore)
     = Inr \<lparr>personId_r = 1, dealId_r = 2, notesAdded_r = 3, resultAction_r = created_new_deal\<rparr>"
  by (simp add: run_defs)

lemma exampleStore_first_run:
  "fst (reconcile toLowerCaseBasic exampleEnv [m3, mVai] exampleStore)
     = Inr \<lparr>personId_r = 2, dealId_r = 11, notesAdded_r = 1,
            resultAction_r = synced_notes_to_existing_deal\<rparr>"
  by (simp add: run_defs)

lemma exampleStore_person:
  "matchPerson toLowerCaseBasic (contactPersonFirstName exampleEnv) exampleStore = Some janis"
  by (simp add: matchPerson_def run_defs)

lemma exampleStore_requests:
  "notesFetched (requests_s (snd (reconcile toLowerCaseBasic exampleEnv [m3, mVai] exampleStore)))
     = [10, 11]"
  by (simp add: run_defs)

lemma exampleStore_second_run:
  "fst (reconcile toLowerCaseBasic exampleEnv [m3, mVai]
          (snd (reconcile toLowerCaseBasic exampleEnv [m3, mVai] exampleStore)))
     = Inr \<lparr>personId_r = 2, dealId_r = 11, notesAdded_r = 0,
            resultAction_r = synced_notes_to_existing_deal\<rparr>"
  by (simp add: run_defs formatNoteHtml_def)

lemma emptyStore_second_run:
  "fst (reconcile toLowerCaseBasic exampleEnv [m3, m5, m9]
          (snd (reconcile toLowerCaseBasic exampleEnv [m3, m5, m9] emptyStore)))
     = Inr \<lparr>personId_r = 1, dealId_r = 2, notesAdded_r = 0,
            resultAction_r = synced_notes_to_existing_deal\<rparr>"
  by (simp add: run_defs formatNoteHtml_def)




text \<open>The store whose search returns nobody: the second run creates everything again.\<close>

lemma deafStore_first_run:
  "fst (reconcile toLowerCaseBasic exampleEnv [m3, m5, m9] deafStore)
     = Inr \<lparr>personId_r = 1, dealId_r = 2, notesAdded_r = 3, resultAction_r = created_new_deal\<rparr>"
  by (simp add: run_defs deafStore_def)

lemma deafStore_held:
  "map (someIncludes
          (notesOf (snd (reconcile toLowerCaseBasic exampleEnv [m3, m5, m9] deafStore)) 2))
     (map text_m [m3, m5, m9]) = [True, True, True]"
  by (simp add: run_defs deafStore_def notesOf_def formatNoteHtml_def)

lemma deafStore_second_run:
  "fst (reconcile toLowerCaseBasic exampleEnv [m3, m5, m9]
          (snd (reconcile toLowerCaseBasic exampleEnv [m3, m5, m9] deafStore)))
     = Inr \<lparr>personId_r = 7, dealId_r = 8, notesAdded_r = 3, resultAction_r = created_new_deal\<rparr>"
  by (simp add: run_defs deafStore_def)

text \<open>
  The store whose field 36 has the key \<open>person_id\<close>: the new deal is created under
  the option id 70, not under the contact, and the second run creates another deal.
\<close>

lemma personKeyStore_first_run:
  "fst (reconcile toLowerCaseBasic exampleEnv [m3, m5, m9] personKeyStore)
     = Inr \<lparr>personId_r = 1, dealId_r = 2, notesAdded_r = 3, resultAction_r = created_new_deal\<rparr>"
  by (simp add: run_defs personKeyStore_def)

lemma personKeyStore_deal:
  "map id_d (deals_s (snd (reconcile toLowerCaseBasic exampleEnv [m3, m5, m9] personKeyStore)))
     = [2]"
  "map personOf (deals_s (snd (reconcile toLowerCaseBasic exampleEnv [m3, m5, m9] personKeyStore)))
     = [Some (Num 70)]"
  by (simp_all add: run_defs personKeyStore_def)

lemma personKeyStore_second_run:
  "fst (reconcile toLowerCaseBasic exampleEnv [m3, m5, m9]
          (snd (reconcile toLowerCaseBasic exampleEnv [m3, m5, m9] personKeyStore)))
     = Inr \<lparr>personId_r = 1, dealId_r = 7, notesAdded_r = 3, resultAction_r = created_new_deal\<rparr>"
  by (simp add: run_defs personKeyStore_def)



section \<open>The note formatter keeps the message text\<close>

text \<open>
  C4. For every message \<open>m\<close>, the note formatter is a total function of the message
  alone (it has no error result and reads nothing else), and its output contains
  \<open>text_m m\<close> verbatim: \<open>includes\<close> finds it, and the rendered fragment is the text
  with something before and after it.
\<close>

theorem formatNoteHtml_contains_text:
  "includes_js (formatNoteHtml m) (text_m m)
   \<and> (\<exists>a b. formatNoteHtml m = a @ text_m m @ b)"
proof -
  obtain a b where
    "formatNoteHtml m = a @ js ''\<newline>    '' @ text_m m @ js ''\<newline>  </div>'' @ b"
    using formatNoteHtml_framed by blast
  then have "formatNoteHtml m = (a @ js ''\<newline>    '') @ text_m m @ (js ''\<newline>  </div>'' @ b)"
    by simp
  then have "\<exists>a b. formatNoteHtml m = a @ text_m m @ b" by blast
  then show ?thesis by (simp add: includes_js_iff)
qed


theorem formatNoteHtml_contains_text_witness:
  "includes_js (formatNoteHtml m3) (js ''Labdien'')"
  using formatNoteHtml_contains_text [of m3] by (simp add: m3_def)

section \<open>The duplicate check and the new deal\<close>

text \<open>
  C5. When the search finds a contact \<open>p\<close>, the deals the gateway lists for \<open>p\<close> are
  scanned in that order, and the owning deal is the first one some note of which
  contains the text of the opening message: a run that returns reports that deal's id
  (and syncs), or, when no deal qualifies, creates a new deal. The scan stops there:
  the notes fetched in the run are those of the deals before the owning deal and of
  the owning deal, in order, and of no deal after it.
\<close>

theorem owning_deal_is_first_holder:
  assumes "reconcile toLowerCase env (firstMessage # rest) s = (Inr r, s')"
    and "matchPerson toLowerCase (contactPersonFirstName env) s = Some p"
  shows "(case List.find (owns s firstMessage) (dealsOf s (id_p p)) of
            Some d \<Rightarrow>
              resultAction_r r = synced_notes_to_existing_deal \<and> dealId_r r = id_d d
              \<and> personId_r r = id_p p
              \<and> notesFetched (drop (length (requests_s s)) (requests_s s'))
                  = map id_d (takeWhile (\<lambda>d. \<not> owns s firstMessage d) (dealsOf s (id_p p)))
                    @ [id_d d]
          | None \<Rightarrow>
              resultAction_r r = created_new_deal
              \<and> notesFetched (drop (length (requests_s s)) (requests_s s'))
                  = map id_d (dealsOf s (id_p p)))"
  using assms(1)
proof (cases rule: reconcile_cases)
  case (synced fm rest' p' d)
  then have "fm = firstMessage" and "p' = p" using assms(2) by simp_all
  with synced show ?thesis
    by (simp add: notesFetched_append notesFetched_GetNotes notesFetched_PostNotes notesFetched_PostNotes_comp)
next
  case (created fm rest' ck cok)
  then have fm: "fm = firstMessage" by simp
  from created(4) assms(2) fm
  have none: "List.find (owns s firstMessage) (dealsOf s (id_p p)) = None" by simp
  from createNew_ok [OF created(5)] assms(2) show ?thesis
    by (simp add: none fm notesFetched_append notesFetched_GetNotes notesFetched_PostNotes notesFetched_PostNotes_comp)
qed

theorem owning_deal_is_first_holder_witness:
  "fst (reconcile toLowerCaseBasic exampleEnv [m3, mVai] exampleStore)
     = Inr \<lparr>personId_r = 2, dealId_r = 11, notesAdded_r = 1,
            resultAction_r = synced_notes_to_existing_deal\<rparr>
   \<and> map id_d (dealsOf exampleStore 2) = [10, 11, 12]
   \<and> map (owns exampleStore m3) (dealsOf exampleStore 2) = [False, True, True]
   \<and> notesFetched (requests_s (snd (reconcile toLowerCaseBasic exampleEnv [m3, mVai] exampleStore)))
       = [10, 11]"
proof -
  define s' where "s' = snd (reconcile toLowerCaseBasic exampleEnv [m3, mVai] exampleStore)"
  have run: "reconcile toLowerCaseBasic exampleEnv (m3 # [mVai]) exampleStore
      = (Inr \<lparr>personId_r = 2, dealId_r = 11, notesAdded_r = 1,
              resultAction_r = synced_notes_to_existing_deal\<rparr>, s')"
    by (simp add: prod_eq_iff exampleStore_first_run s'_def)
  have deals: "dealsOf exampleStore 2 =
      [dealOf 10 (js ''first'') 2 False, dealOf 11 (js ''second'') 2 False,
       dealOf 12 (js ''third'') 2 False]"
    by (simp add: dealsOf_def personOf_def exampleStore_def janis_def dealOf_def js_def)
  have ids: "id_d (dealOf i t q x) = i" for i t q x by (simp add: dealOf_def)
  have owns: "map (owns exampleStore m3) (dealsOf exampleStore 2) = [False, True, True]"
    unfolding deals
    by (simp add: owns_def notesOf_def someIncludes_def exampleStore_def janis_def m3_def js_def ids)
  then have o: "\<not> owns exampleStore m3 (dealsOf exampleStore 2 ! 0)"
    "owns exampleStore m3 (dealsOf exampleStore 2 ! 1)"
    unfolding deals by simp_all
  note th = owning_deal_is_first_holder [OF run exampleStore_person]
  have "notesFetched (drop (length (requests_s exampleStore)) (requests_s s')) = [10, 11]"
    using th o by (simp add: janis_def deals ids)
  moreover have "requests_s exampleStore = []" by (simp add: exampleStore_def)
  ultimately show ?thesis using exampleStore_first_run owns by (simp add: deals s'_def ids)
qed

text \<open>
  C10. In a run that creates a new deal, the count of notes added that it reports is
  the number of messages of the thread, while the store receives one note more than
  that for the new deal (the note that links to the thread is not counted).
\<close>

theorem created_new_deal_notesAdded:
  assumes "reconcile toLowerCase env messages s = (Inr r, s')"
    and "resultAction_r r = created_new_deal"
  shows "notesAdded_r r = length messages
         \<and> (\<exists>new. notes_s s' = notes_s s @ new
                \<and> map deal_id_n new = replicate (Suc (length messages)) (dealId_r r))"
  using assms(1)
proof (cases rule: reconcile_cases)
  case (synced fm rest p d)
  with assms(2) show ?thesis by simp
next
  case (created fm rest ck cok)
  from createNew_ok [OF created(5)] show ?thesis
    by (auto simp: notesFrom_deal_ids split: option.splits)
qed

theorem created_new_deal_notesAdded_witness:
  "fst (reconcile toLowerCaseBasic exampleEnv [m3, m5, m9] emptyStore)
     = Inr \<lparr>personId_r = 1, dealId_r = 2, notesAdded_r = 3, resultAction_r = created_new_deal\<rparr>
   \<and> map deal_id_n (notes_s (snd (reconcile toLowerCaseBasic exampleEnv [m3, m5, m9] emptyStore)))
       = [2, 2, 2, 2]"
proof -
  define s' where "s' = snd (reconcile toLowerCaseBasic exampleEnv [m3, m5, m9] emptyStore)"
  let ?r = "\<lparr>personId_r = 1, dealId_r = 2, notesAdded_r = 3, resultAction_r = created_new_deal\<rparr>"
  have run: "reconcile toLowerCaseBasic exampleEnv [m3, m5, m9] emptyStore = (Inr ?r, s')"
    by (simp add: prod_eq_iff emptyStore_first_run s'_def)
  have "notes_s emptyStore = []" by (simp add: emptyStore_def)
  with created_new_deal_notesAdded [OF run] have "map deal_id_n (notes_s s') = [2, 2, 2, 2]"
    by (auto simp: numeral_eq_Suc)
  then show ?thesis using emptyStore_first_run by (simp add: s'_def)
qed

section \<open>Running twice\<close>

text \<open>
  C1, amended. Let a first run on a store return, and a second run of the same thread
  on the store the first one left return too. Then the second run adds no note (it
  reports 0 and leaves the notes of the store as they are), syncs, and reports the deal
  and the person of the first run, provided that the second run can find what the
  first one created: when the first run created the contact, the search of the store
  for the first name returns that contact (and the ids in use were below the next free
  id); when it created the deal, neither resolved key is \<open>person_id\<close>, so that the
  deal was created under the contact. The reason is the last conjunct: after the first
  run every message of the thread has a note of that deal whose content contains the
  text of the message, with anything before and after it; the test is containment, not
  equality.
\<close>

theorem reconcile_idempotent:
  assumes first: "reconcile toLowerCase env thread s = (Inr r1, s1)"
    and second: "reconcile toLowerCase env thread s1 = (Inr r2, s2)"
    and search: "matchPerson toLowerCase (contactPersonFirstName env) s = None \<Longrightarrow>
                   freshIds s
                   \<and> hit_s s (contactPersonFirstName env)
                         \<lparr>id_p = personId_r r1, name_p = Some (contactPersonName env)\<rparr>"
    and keys: "resultAction_r r1 = created_new_deal \<Longrightarrow>
                 fieldKey s SOURCE_CHANNEL_FIELD_ID \<noteq> Some (js ''person_id'')
                 \<and> fieldKey s SOURCE_COMPANY_FIELD_ID \<noteq> Some (js ''person_id'')"
  shows "notesAdded_r r2 = 0 \<and> dealId_r r2 = dealId_r r1 \<and> personId_r r2 = personId_r r1
         \<and> resultAction_r r2 = synced_notes_to_existing_deal
         \<and> notes_s s2 = notes_s s1
         \<and> (\<forall>m\<in>set thread. \<exists>n\<in>set (notesOf s1 (dealId_r r1)). \<exists>a b.
               (case content_n n of None \<Rightarrow> [] | Some c \<Rightarrow> c) = a @ text_m m @ b)"
proof -
  let ?fn = "contactPersonFirstName env"
  have goal: ?thesis
    if p1: "\<And>p. matchPerson toLowerCase ?fn s1 = Some p \<Longrightarrow> id_p p = personId_r r1"
    and p2: "matchPerson toLowerCase ?fn s1 \<noteq> None"
    and d1: "\<And>fm rest p d. thread = fm # rest \<Longrightarrow> matchPerson toLowerCase ?fn s1 = Some p \<Longrightarrow>
               List.find (owns s1 fm) (dealsOf s1 (id_p p)) = Some d \<Longrightarrow> id_d d = dealId_r r1"
    and d2: "\<And>fm rest p. thread = fm # rest \<Longrightarrow> matchPerson toLowerCase ?fn s1 = Some p \<Longrightarrow>
               List.find (owns s1 fm) (dealsOf s1 (id_p p)) \<noteq> None"
    and m: "missing (notesOf s1 (dealId_r r1)) thread = []"
    using second
  proof (cases rule: reconcile_cases)
    case (synced fm rest p d)
    have pid: "id_p p = personId_r r1" using p1 synced(2) by simp
    have did: "id_d d = dealId_r r1" using d1 [OF synced(1) synced(2) synced(3)] .
    have held: "someIncludes (notesOf s1 (dealId_r r1)) (text_m x)" if "x \<in> set thread" for x
      using m that by (simp add: missing_Nil_iff)
    have "notes_s s2 = notes_s s1" using synced(5) m by (simp add: did)
    moreover have "notesAdded_r r2 = 0" using synced(4) m by (simp add: did)
    moreover have "dealId_r r2 = dealId_r r1" "personId_r r2 = personId_r r1"
      "resultAction_r r2 = synced_notes_to_existing_deal"
      using synced(4) pid did by simp_all
    ultimately show ?thesis using held someIncludesD by blast
  next
    case (created fm rest ck cok)
    from p2 obtain p where p: "matchPerson toLowerCase ?fn s1 = Some p" by auto
    with created(4) have "List.find (owns s1 fm) (dealsOf s1 (id_p p)) = None" by simp
    with d2 [OF created(1) p] show ?thesis by simp
  qed
  from first show ?thesis
  proof (cases rule: reconcile_cases)
    case (synced fm rest p d)
    let ?rs = "[GetDealFields, GetPersonsSearch ?fn, GetPersonDeals (id_p p)]
                 @ map (\<lambda>d. GetNotes (id_d d))
                     (takeWhile (\<lambda>d. \<not> owns s fm d) (dealsOf s (id_p p)))
                 @ [GetNotes (id_d d)]"
    have s1: "s1 = posted (id_d d) (map formatNoteHtml (missing (notesOf s (id_d d)) thread))
                     (logged ?rs s)"
      using synced(5) by simp
    note sr = second_run_after_sync [OF synced(3), of thread ?rs, folded s1]
    have mp: "matchPerson toLowerCase ?fn s1 = Some p" using synced(2) by (simp add: s1)
    have ds: "dealsOf s1 (id_p p) = dealsOf s (id_p p)" by (simp add: s1)
    have r1: "personId_r r1 = id_p p" "dealId_r r1 = id_d d" using synced(4) by simp_all
    show ?thesis
    proof (rule goal)
      show "id_p q = personId_r r1" if "matchPerson toLowerCase ?fn s1 = Some q" for q
        using that mp r1 by simp
      show "matchPerson toLowerCase ?fn s1 \<noteq> None" using mp by simp
      show "id_d e = dealId_r r1"
        if "thread = fm' # rest'" "matchPerson toLowerCase ?fn s1 = Some q"
           "List.find (owns s1 fm') (dealsOf s1 (id_p q)) = Some e" for fm' rest' q e
        using that mp sr(1) synced(1) r1 ds by simp
      show "List.find (owns s1 fm') (dealsOf s1 (id_p q)) \<noteq> None"
        if "thread = fm' # rest'" "matchPerson toLowerCase ?fn s1 = Some q" for fm' rest' q
        using that mp sr(1) synced(1) ds by simp
      show "missing (notesOf s1 (dealId_r r1)) thread = []" using sr(2) r1 by simp
    qed
  next
    case (created fm rest ck cok)
    define ep where "ep = matchPerson toLowerCase ?fn s"
    define sl where "sl = logged ([GetDealFields, GetPersonsSearch ?fn]
            @ (case ep of None \<Rightarrow> []
               | Some p \<Rightarrow> GetPersonDeals (id_p p)
                           # map (\<lambda>d. GetNotes (id_d d)) (dealsOf s (id_p p)))) s"
    define s0 where "s0 = (case ep of Some p \<Rightarrow> sl
                   | None \<Rightarrow> withPerson (contactPersonName env) DEAL_OWNER_USER_ID sl)"
    define pid where "pid = (case ep of Some p \<Rightarrow> id_p p | None \<Rightarrow> nextId_s sl)"
    have cn: "createNew env fm thread ck cok ep sl = (Inr r1, s1)"
      using created(5) by (simp only: ep_def sl_def)
    note ok = createNew_ok [OF cn, folded s0_def pid_def]
    have r1: "r1 = \<lparr>personId_r = pid, dealId_r = nextId_s s0, notesAdded_r = length thread,
                     resultAction_r = created_new_deal\<rparr>"
      using ok by (rule conjunct1)
    have s1: "s1 = posted (nextId_s s0) (noteLink env # map formatNoteHtml thread)
                     (withDeal (dealBody env fm pid ck cok) s0)"
      using ok by (rule conjunct2)
    have "ck \<noteq> js ''person_id''" "cok \<noteq> js ''person_id''"
      using keys r1 created(2,3) by simp_all
    then have person: "dealBody env fm pid ck cok (js ''person_id'') = Some (Num pid)"
      by (simp add: dealBody_person)
    have fm: "fm \<in> set thread" using created(1) by simp
    have none: "\<forall>d\<in>set (dealsOf s0 pid). \<not> owns s0 fm d"
    proof (cases ep)
      case None
      with search have "freshIds s" by (simp add: ep_def)
      then have "dealsOf s (nextId_s s) = []" by (rule freshIds_no_deals)
      then show ?thesis using None by (simp add: s0_def pid_def sl_def)
    next
      case (Some p)
      with created(4) have "List.find (owns s fm) (dealsOf s (id_p p)) = None"
        by (simp add: ep_def)
      then show ?thesis using Some by (simp add: s0_def pid_def sl_def find_None_iff)
    qed
    note sr = second_run_after_create
        [where body = "dealBody env fm pid ck cok" and link = "noteLink env",
         OF none fm person, folded s1]
    have made: "matchPerson toLowerCase ?fn s1
                  = Some \<lparr>id_p = nextId_s sl, name_p = Some (contactPersonName env)\<rparr>"
      if "ep = None"
    proof -
      from that have "matchPerson toLowerCase ?fn sl = None" by (simp add: ep_def sl_def)
      moreover have "hit_s sl ?fn \<lparr>id_p = nextId_s sl, name_p = Some (contactPersonName env)\<rparr>"
        using search that r1 by (simp add: ep_def pid_def sl_def)
      ultimately have "matchPerson toLowerCase ?fn
          (withPerson (contactPersonName env) DEAL_OWNER_USER_ID sl)
            = Some \<lparr>id_p = nextId_s sl, name_p = Some (contactPersonName env)\<rparr>"
        by (rule matchPerson_created)
      then show ?thesis using that by (simp add: s1 s0_def)
    qed
    have mp: "id_p q = pid" if q: "matchPerson toLowerCase ?fn s1 = Some q" for q
    proof (cases ep)
      case None
      with q made have "q = \<lparr>id_p = nextId_s sl, name_p = Some (contactPersonName env)\<rparr>"
        by simp
      then show ?thesis using None by (simp add: pid_def)
    next
      case (Some p)
      then have "matchPerson toLowerCase ?fn s1 = Some p" by (simp add: s1 s0_def sl_def ep_def)
      with q Some show ?thesis by (simp add: pid_def)
    qed
    have mpne: "matchPerson toLowerCase ?fn s1 \<noteq> None"
    proof (cases ep)
      case None
      with made show ?thesis by simp
    next
      case (Some p)
      then show ?thesis by (simp add: s1 s0_def sl_def ep_def)
    qed
    show ?thesis
    proof (rule goal)
      show "id_p q = personId_r r1" if "matchPerson toLowerCase ?fn s1 = Some q" for q
        using mp [OF that] r1 by simp
      show "matchPerson toLowerCase ?fn s1 \<noteq> None" by (rule mpne)
      show "id_d e = dealId_r r1"
        if "thread = fm' # rest'" "matchPerson toLowerCase ?fn s1 = Some q"
           "List.find (owns s1 fm') (dealsOf s1 (id_p q)) = Some e" for fm' rest' q e
        using that mp [OF that(2)] sr(2) created(1) r1 by simp
      show "List.find (owns s1 fm') (dealsOf s1 (id_p q)) \<noteq> None"
        if "thread = fm' # rest'" "matchPerson toLowerCase ?fn s1 = Some q" for fm' rest' q
        using that mp [OF that(2)] sr(1) created(1) by simp
      show "missing (notesOf s1 (dealId_r r1)) thread = []" using sr(3) r1 by simp
    qed
  qed
qed


theorem reconcile_idempotent_witness:
  "fst (reconcile toLowerCaseBasic exampleEnv [m3, mVai] exampleStore)
     = Inr \<lparr>personId_r = 2, dealId_r = 11, notesAdded_r = 1,
            resultAction_r = synced_notes_to_existing_deal\<rparr>
   \<and> fst (reconcile toLowerCaseBasic exampleEnv [m3, mVai]
           (snd (reconcile toLowerCaseBasic exampleEnv [m3, mVai] exampleStore)))
     = Inr \<lparr>personId_r = 2, dealId_r = 11, notesAdded_r = 0,
            resultAction_r = synced_notes_to_existing_deal\<rparr>
   \<and> fst (reconcile toLowerCaseBasic exampleEnv [m3, m5, m9] emptyStore)
     = Inr \<lparr>personId_r = 1, dealId_r = 2, notesAdded_r = 3, resultAction_r = created_new_deal\<rparr>
   \<and> fst (reconcile toLowerCaseBasic exampleEnv [m3, m5, m9]
           (snd (reconcile toLowerCaseBasic exampleEnv [m3, m5, m9] emptyStore)))
     = Inr \<lparr>personId_r = 1, dealId_r = 2, notesAdded_r = 0,
            resultAction_r = synced_notes_to_existing_deal\<rparr>
   \<and> freshIds emptyStore
   \<and> hit_s emptyStore (contactPersonFirstName exampleEnv)
         \<lparr>id_p = 1, name_p = Some (contactPersonName exampleEnv)\<rparr>
   \<and> fieldKey emptyStore SOURCE_CHANNEL_FIELD_ID = Some (js ''channel_key'')
   \<and> fieldKey emptyStore SOURCE_COMPANY_FIELD_ID = Some (js ''company_key'')"
proof -
  define a1 where "a1 = snd (reconcile toLowerCaseBasic exampleEnv [m3, m5, m9] emptyStore)"
  define a2 where "a2 = snd (reconcile toLowerCaseBasic exampleEnv [m3, m5, m9] a1)"
  define b1 where "b1 = snd (reconcile toLowerCaseBasic exampleEnv [m3, mVai] exampleStore)"
  define b2 where "b2 = snd (reconcile toLowerCaseBasic exampleEnv [m3, mVai] b1)"
  let ?ra = "\<lparr>personId_r = 1, dealId_r = 2, notesAdded_r = 3, resultAction_r = created_new_deal\<rparr>"
  let ?rb = "\<lparr>personId_r = 2, dealId_r = 11, notesAdded_r = 1,
              resultAction_r = synced_notes_to_existing_deal\<rparr>"
  obtain ra2 where ra2: "fst (reconcile toLowerCaseBasic exampleEnv [m3, m5, m9] a1) = Inr ra2"
    using emptyStore_second_run by (simp add: a1_def)
  obtain rb2 where rb2: "fst (reconcile toLowerCaseBasic exampleEnv [m3, mVai] b1) = Inr rb2"
    using exampleStore_second_run by (simp add: b1_def)
  have fresh: "freshIds emptyStore" by (simp add: freshIds_def emptyStore_def)
  have hit: "hit_s emptyStore (contactPersonFirstName exampleEnv)
               \<lparr>id_p = 1, name_p = Some (contactPersonName exampleEnv)\<rparr>"
    by (simp add: emptyStore_def)
  have keys: "fieldKey emptyStore SOURCE_CHANNEL_FIELD_ID = Some (js ''channel_key'')"
    "fieldKey emptyStore SOURCE_COMPANY_FIELD_ID = Some (js ''company_key'')"
    by (simp_all add: fieldKey_def emptyStore_def SOURCE_CHANNEL_FIELD_ID_def
        SOURCE_COMPANY_FIELD_ID_def)
  have ne: "js ''channel_key'' \<noteq> js ''person_id''" "js ''company_key'' \<noteq> js ''person_id''"
    by (simp_all add: js_def)
  have a: "notesAdded_r ra2 = 0 \<and> dealId_r ra2 = dealId_r ?ra \<and> personId_r ra2 = personId_r ?ra
           \<and> resultAction_r ra2 = synced_notes_to_existing_deal"
    using reconcile_idempotent [of toLowerCaseBasic exampleEnv "[m3, m5, m9]" emptyStore ?ra a1 ra2 a2]
      emptyStore_first_run ra2 fresh hit keys ne
    by (simp add: prod_eq_iff a1_def a2_def)
  have b: "notesAdded_r rb2 = 0 \<and> dealId_r rb2 = dealId_r ?rb \<and> personId_r rb2 = personId_r ?rb
           \<and> resultAction_r rb2 = synced_notes_to_existing_deal"
    using reconcile_idempotent [of toLowerCaseBasic exampleEnv "[m3, mVai]" exampleStore ?rb b1 rb2 b2]
      exampleStore_first_run rb2 exampleStore_person
    by (simp add: prod_eq_iff b1_def b2_def)
  have "ra2 = \<lparr>personId_r = 1, dealId_r = 2, notesAdded_r = 0,
            resultAction_r = synced_notes_to_existing_deal\<rparr>" using a by (cases ra2) simp
  moreover have "rb2 = \<lparr>personId_r = 2, dealId_r = 11, notesAdded_r = 0,
            resultAction_r = synced_notes_to_existing_deal\<rparr>" using b by (cases rb2) simp
  ultimately show ?thesis
    using emptyStore_first_run exampleStore_first_run ra2 rb2 fresh hit keys
    by (simp add: a1_def b1_def)
qed

text \<open>
  The claim as it is written fails where the second run cannot find what the first one
  created. On the store whose search returns nobody the first run creates contact 1
  and deal 2 with a note for every message, and the second run creates contact 7 and
  deal 8 and adds three notes again. On the store whose field 36 has the key
  \<open>person_id\<close> the first run creates deal 2 under the option id 70, and the second
  run, which finds contact 1 and no deal of that contact, creates deal 7.
\<close>

theorem second_run_creates_again_counterexample:
  "fst (reconcile toLowerCaseBasic exampleEnv [m3, m5, m9] deafStore)
     = Inr \<lparr>personId_r = 1, dealId_r = 2, notesAdded_r = 3, resultAction_r = created_new_deal\<rparr>
   \<and> map (someIncludes
            (notesOf (snd (reconcile toLowerCaseBasic exampleEnv [m3, m5, m9] deafStore)) 2))
       (map text_m [m3, m5, m9]) = [True, True, True]
   \<and> fst (reconcile toLowerCaseBasic exampleEnv [m3, m5, m9]
           (snd (reconcile toLowerCaseBasic exampleEnv [m3, m5, m9] deafStore)))
     = Inr \<lparr>personId_r = 7, dealId_r = 8, notesAdded_r = 3, resultAction_r = created_new_deal\<rparr>
   \<and> fst (reconcile toLowerCaseBasic exampleEnv [m3, m5, m9] personKeyStore)
     = Inr \<lparr>personId_r = 1, dealId_r = 2, notesAdded_r = 3, resultAction_r = created_new_deal\<rparr>
   \<and> map id_d
       (deals_s (snd (reconcile toLowerCaseBasic exampleEnv [m3, m5, m9] personKeyStore)))
     = [2]
   \<and> map personOf
       (deals_s (snd (reconcile toLowerCaseBasic exampleEnv [m3, m5, m9] personKeyStore)))
     = [Some (Num 70)]
   \<and> fst (reconcile toLowerCaseBasic exampleEnv [m3, m5, m9]
           (snd (reconcile toLowerCaseBasic exampleEnv [m3, m5, m9] personKeyStore)))
     = Inr \<lparr>personId_r = 1, dealId_r = 7, notesAdded_r = 3, resultAction_r = created_new_deal\<rparr>"
  using deafStore_first_run deafStore_held deafStore_second_run
    personKeyStore_first_run personKeyStore_deal personKeyStore_second_run
  by simp

section \<open>The parsed thread\<close>

text \<open>
  C9. A message block whose id has no entry in the text lookup, or an empty one, is
  skipped: its id is reported (the warning) and no message of the returned thread has
  it, and the parse as a whole still returns. Whenever the response is not the login
  page and the chat region is found and has 50 code units or more, \<open>fetchAllMessages\<close>
  returns the messages pushed for the blocks that have a text, sorted, and the ids of
  the others.
\<close>

theorem skipped_blocks_do_not_fail:
  assumes "\<not> (url_h (fetch url cookie) \<noteq> [] \<and> includes_js (url_h (fetch url cookie)) loginPath)"
    and "matchFirst chatDivAt (html_h (fetch url cookie)) = Some cc"
    and "50 \<le> length cc"
  shows "\<exists>pushed skipped.
           fetchAllMessages fetch cookie url
             = Inr (sort_key (\<lambda>a. parseInt (id_m a)) pushed, skipped)
           \<and> map id_m pushed = filter (hasText (textsOf cc)) (map blockId (blocksOf cc))
           \<and> skipped = filter (\<lambda>i. \<not> hasText (textsOf cc) i) (map blockId (blocksOf cc))
           \<and> (\<forall>b\<in>set (blocksOf cc). \<not> hasText (textsOf cc) (blockId b) \<longrightarrow>
                 blockId b \<in> set skipped \<and> blockId b \<notin> id_m ` set pushed)"
proof -
  let ?r = "messageLoop cc (datesOf cc) (textsOf cc) (blocksOf cc) (0, None)"
  have run: "fetchAllMessages fetch cookie url
               = Inr (sort_key (\<lambda>a. parseInt (id_m a)) (fst ?r), snd ?r)"
    using assms
    by (simp add: fetchAllMessages_def Let_def case_prod_beta datesOf_def textsOf_def blocksOf_def)
  have ids: "map id_m (fst ?r) = filter (hasText (textsOf cc)) (map blockId (blocksOf cc))"
    by (rule messageLoop_ids)
  have sk: "snd ?r = filter (\<lambda>i. \<not> hasText (textsOf cc) i) (map blockId (blocksOf cc))"
    by (rule messageLoop_skipped)
  have "blockId b \<in> set (snd ?r) \<and> blockId b \<notin> id_m ` set (fst ?r)"
    if "b \<in> set (blocksOf cc)" "\<not> hasText (textsOf cc) (blockId b)" for b
  proof -
    have "id_m ` set (fst ?r) = set (map id_m (fst ?r))" by simp
    also have "\<dots> = {i \<in> blockId ` set (blocksOf cc). hasText (textsOf cc) i}"
      unfolding ids by auto
    finally show ?thesis using that by (auto simp: sk)
  qed
  with run ids sk show ?thesis by blast
qed

theorem skipped_blocks_do_not_fail_witness:
  "\<exists>pushed. fetchAllMessages (servePage (pageOf chatSkip)) [] []
                = Inr (sort_key (\<lambda>a. parseInt (id_m a)) pushed, [js ''1'', js ''2''])
             \<and> map id_m pushed = [js ''4'']"
proof -
  have a: "\<not> (url_h (servePage (pageOf chatSkip) [] []) \<noteq> []
              \<and> includes_js (url_h (servePage (pageOf chatSkip) [] [])) loginPath)"
    by (simp add: servePage_def)
  have b: "matchFirst chatDivAt (html_h (servePage (pageOf chatSkip) [] [])) = Some chatSkip"
    by (simp add: servePage_def chatSkip_found)
  have t: "hasText (textsOf chatSkip) (js ''4'')" "\<not> hasText (textsOf chatSkip) (js ''1'')"
    "\<not> hasText (textsOf chatSkip) (js ''2'')"
    using chatSkip_texts by simp_all
  from skipped_blocks_do_not_fail [of "servePage (pageOf chatSkip)" "[]" "[]" chatSkip,
      OF a b chatSkip_length]
  show ?thesis
    unfolding chatSkip_blocks using t by auto
qed

text \<open>
  C2, amended. For every page on which the parse succeeds, the returned messages are
  sorted ascending, not always strictly, by the Number that \<open>parseInt\<close> gives for
  their ids, whatever the order of the blocks in the page; that is the order of the
  numeric values of the ids when these are below \<open>2 ^ 53\<close>. The order is strict, and
  the ids are unique, when the ids of the blocks of the page have pairwise different
  Numbers; the parser itself removes no duplicate.
\<close>

theorem messages_sorted_by_id:
  assumes parsed: "fetchAllMessages fetch cookie url = Inr (messages, skipped)"
  shows "sorted (map (\<lambda>m. parseInt (id_m m)) messages)
         \<and> ((\<forall>m\<in>set messages. numericValue (id_m m) < 2 ^ 53) \<longrightarrow>
               sorted (map (\<lambda>m. numericValue (id_m m)) messages))
         \<and> (\<forall>cc. matchFirst chatDivAt (html_h (fetch url cookie)) = Some cc \<longrightarrow>
                distinct (map (\<lambda>b. parseInt (blockId b)) (blocksOf cc)) \<longrightarrow>
                sorted_wrt (<) (map (\<lambda>m. parseInt (id_m m)) messages)
                \<and> distinct (map id_m messages))"
  using parsed
proof (cases rule: fetchAllMessages_Inr)
  case (1 cc)
  let ?pushed = "fst (messageLoop cc (datesOf cc) (textsOf cc) (blocksOf cc) (0, None))"
  have sorted: "sorted (map (\<lambda>m. parseInt (id_m m)) messages)"
    unfolding 1(3) by (rule sorted_sort_key)
  have exact: "sorted (map (\<lambda>m. numericValue (id_m m)) messages)"
    if "\<forall>m\<in>set messages. numericValue (id_m m) < 2 ^ 53"
  proof -
    from that have "map (\<lambda>m. parseInt (id_m m)) messages = map (\<lambda>m. numericValue (id_m m)) messages"
      by (simp add: parseInt_exact)
    with sorted show ?thesis by simp
  qed
  have strict: "sorted_wrt (<) (map (\<lambda>m. parseInt (id_m m)) messages) \<and> distinct (map id_m messages)"
    if d: "distinct (map (\<lambda>b. parseInt (blockId b)) (blocksOf cc))"
  proof -
    have "map (\<lambda>m. parseInt (id_m m)) ?pushed = map parseInt (map id_m ?pushed)" by simp
    also have "\<dots> = map (\<lambda>b. parseInt (blockId b))
                        (filter (\<lambda>b. hasText (textsOf cc) (blockId b)) (blocksOf cc))"
      by (simp add: messageLoop_ids filter_map comp_def)
    finally have dp: "distinct (map (\<lambda>m. parseInt (id_m m)) ?pushed)"
      using d by (simp add: distinct_map_filter)
    then have dm: "distinct (map (\<lambda>m. parseInt (id_m m)) messages)"
      unfolding 1(3) by (simp add: distinct_map_sort_key)
    have "distinct (map id_m messages)"
      using dm distinct_mapD [of parseInt "map id_m messages"] by (simp add: comp_def)
    with sorted dm show ?thesis by (simp add: strict_sorted_iff)
  qed
  show ?thesis using sorted exact strict 1(1) by auto
qed

theorem messages_sorted_by_id_witness:
  "fetchAllMessages (servePage (pageOf chatA)) [] (conversationUrl exampleEnv)
     = Inr ([m3, m5, m9], [])
   \<and> map blockId (blocksOf chatA) = [js ''5'', js ''3'', js ''9'']
   \<and> map id_m [m3, m5, m9] = [js ''3'', js ''5'', js ''9'']
   \<and> map (\<lambda>m. numericValue (id_m m)) [m3, m5, m9] = [3, 5, 9]
   \<and> sorted (map (\<lambda>m. numericValue (id_m m)) [m3, m5, m9])
   \<and> sorted_wrt (<) (map (\<lambda>m. parseInt (id_m m)) [m3, m5, m9])
   \<and> distinct (map id_m [m3, m5, m9])"
proof -
  have ids: "map (\<lambda>m. numericValue (id_m m)) [m3, m5, m9] = [3, 5, 9]"
    by (simp add: m3_def m5_def m9_def numericValue_def isDigit_def js_def)
  then have safe: "\<forall>m\<in>set [m3, m5, m9]. numericValue (id_m m) < 2 ^ 53"
    by simp
  have found: "matchFirst chatDivAt
      (html_h (servePage (pageOf chatA) (conversationUrl exampleEnv) [])) = Some chatA"
    by (simp add: servePage_def chatA_found)
  have "map (\<lambda>b. parseInt (blockId b)) (blocksOf chatA) = map parseInt (map blockId (blocksOf chatA))"
    by simp
  also have "\<dots> = [5, 3, 9]"
    unfolding chatA_blocks
    by (simp add: parseInt_def toNumber_def numericValue_def isDigit_def js_def)
  finally have d: "distinct (map (\<lambda>b. parseInt (blockId b)) (blocksOf chatA))" by simp
  from messages_sorted_by_id [OF chatA_parsed] safe found d
  have "sorted (map (\<lambda>m. numericValue (id_m m)) [m3, m5, m9])
        \<and> sorted_wrt (<) (map (\<lambda>m. parseInt (id_m m)) [m3, m5, m9])
        \<and> distinct (map id_m [m3, m5, m9])"
    by blast
  then show ?thesis using chatA_parsed chatA_blocks ids by (simp add: m3_def m5_def m9_def)
qed

text \<open>
  The claim as it is written fails on a page with two blocks of the same id: both are
  returned, so the ids are not unique and the order is not strict. It fails too on a
  page whose ids are beyond \<open>2 ^ 53\<close>: \<open>parseInt\<close> gives the two ids below the same
  Number, the stable sort leaves the messages in the order of the page, and the larger
  id comes first.
\<close>

theorem messages_strictly_sorted_counterexample:
  "fetchAllMessages (servePage (pageOf chatDup)) [] [] = Inr ([dup1, dup2], [])
   \<and> id_m dup1 = id_m dup2
   \<and> \<not> sorted_wrt (<) (map numericValue (map id_m [dup1, dup2]))
   \<and> \<not> distinct (map id_m [dup1, dup2])
   \<and> fetchAllMessages (servePage (pageOf chatBig)) [] [] = Inr ([big1, big2], [])
   \<and> map numericValue (map id_m [big1, big2]) = [9007199254740993, 9007199254740992]
   \<and> \<not> sorted (map numericValue (map id_m [big1, big2]))"
proof -
  have "map numericValue (map id_m [big1, big2]) = [9007199254740993, 9007199254740992]"
    by (simp add: big1_def big2_def numericValue_def isDigit_def js_def)
  then show ?thesis using chatDup_parsed chatBig_parsed by (simp add: dup1_def dup2_def)
qed




section \<open>The contact, the empty thread and the new deal\<close>

text \<open>
  C6, amended. The contact match compares the first token of the contact's display
  name, delimited by the space character U+0020 (any other white space is part of the
  token), with the first such token of each candidate's name; the two are compared
  after \<open>toLowerCase\<close>, as whole tokens, and the first candidate of the search result
  that qualifies is taken, or none.
\<close>

theorem contact_matched_by_first_token:
  assumes search: "findPersonByFirstName toLowerCase (contactPersonFirstName env) s = (Inr found, s')"
  shows "found = List.find
           (\<lambda>i. toLowerCase (firstSpaceToken (nameOf i))
                  = toLowerCase (firstSpaceToken (contactPersonName env)))
           (filter (hit_s s (firstSpaceToken (contactPersonName env))) (persons_s s))"
  using findPersonByFirstName_ok [OF search]
  by (simp add: contactPersonFirstName_token hd_split_js firstSpaceToken_def nameOf_def)

theorem contact_matched_by_first_token_witness:
  "fst (findPersonByFirstName toLowerCaseBasic (contactPersonFirstName exampleEnv) exampleStore)
     = Inr (Some janis)
   \<and> map name_p (persons_s exampleStore)
        = [Some [74, 257, 110, 105], Some ([74, 257, 110, 105, 115] @ js '' Kalns'')]
   \<and> toLowerCaseBasic (firstSpaceToken (contactPersonName exampleEnv)) = [106, 257, 110, 105, 115]
   \<and> map (\<lambda>i. toLowerCaseBasic (firstSpaceToken (nameOf i))) (persons_s exampleStore)
        = [[106, 257, 110, 105], [106, 257, 110, 105, 115]]"
proof -
  obtain found s' where run:
    "findPersonByFirstName toLowerCaseBasic (contactPersonFirstName exampleEnv) exampleStore
       = (Inr found, s')"
    by (simp add: run_defs)
  from contact_matched_by_first_token [OF run]
  have "found = Some janis"
    by (simp add: exampleEnv_name exampleStore_def janis_def janisBerzins_def firstSpaceToken_def
        nameOf_def toLowerCaseBasic_def js_def)
  with run show ?thesis
    by (simp add: exampleEnv_name exampleStore_def janis_def janisBerzins_def firstSpaceToken_def
        nameOf_def toLowerCaseBasic_def js_def)
qed

text \<open>
  The claim as it is written fails for a display name whose first white space is not a
  space: for \<open>Anna\<close>, a tab, \<open>Liepa\<close> the first token delimited by white space is
  \<open>Anna\<close>, which is the name of the one contact of the store, and the search returns
  that contact, but the program compares \<open>Anna\<close> with the whole display name and finds
  nobody.
\<close>

theorem whitespace_token_counterexample:
  "fst (findPersonByFirstName toLowerCaseBasic (contactPersonFirstName annaEnv) annaStore)
     = Inr None
   \<and> contactPersonName annaEnv = js ''Anna'' @ [9] @ js ''Liepa''
   \<and> persons_s annaStore = [anna]
   \<and> hit_s annaStore (contactPersonFirstName annaEnv) anna
   \<and> firstWhitespaceToken (contactPersonName annaEnv) = js ''Anna''
   \<and> firstWhitespaceToken (nameOf anna) = js ''Anna''
   \<and> toLowerCaseBasic (firstWhitespaceToken (nameOf anna))
       = toLowerCaseBasic (firstWhitespaceToken (contactPersonName annaEnv))"
  by (simp add: run_defs annaEnv_def annaStore_def anna_def annaLiepa_def
      firstWhitespaceToken_def nameOf_def)

text \<open>
  C8. When the parsed thread has no message, \<open>main\<close> fails with the error
  \<open>No messages found in conversation\<close> (the specification's EmptyThreadError) and the
  store is as it was: no request was sent to the gateway.
\<close>

theorem no_messages_no_requests:
  assumes "loadCookies w = Inr cookieString"
    and "fetchAllMessages (network w) cookieString (conversationUrl env) = Inr ([], skipped)"
  shows "main toLowerCase env w s = (Inl NoMessagesFound, s)
         \<and> requests_s (snd (main toLowerCase env w s)) = requests_s s"
  using assms by (simp add: main_def reconcile_def)

theorem no_messages_no_requests_witness:
  "main toLowerCaseBasic exampleEnv (exampleWorld (pageOf chatNone)) emptyStore
     = (Inl NoMessagesFound, emptyStore)"
proof -
  have c: "loadCookies (exampleWorld (pageOf chatNone)) = Inr (js ''sid=1'')"
    by (simp add: loadCookies_def exampleWorld_def)
  have p: "fetchAllMessages (network (exampleWorld (pageOf chatNone))) (js ''sid=1'')
             (conversationUrl exampleEnv) = Inr ([], [])"
    by (simp add: exampleWorld_def chatNone_parsed)
  from no_messages_no_requests [OF c p] show ?thesis by simp
qed




end
